theory Spec2Isabelle
  imports Complex_Main "HOL-Library.Word"
begin

unbundle bit_operations_syntax

text \<open>
  A model of the protocol engine of \<open>index.js\<close>: the packet builders and \<open>parsePacket\<close>, the
  loop of \<open>handleIncomingData\<close> on the receive buffer, the handlers of ZM and PV packets with
  the state they keep, and the set and toggle commands. Methods become functions on a
  record of the instance's fields; an exception is the \<open>Inl\<close> result of a sum.
\<close>

section \<open>Buffers\<close>

text \<open>
  A Node \<open>Buffer\<close> is a list of bytes. A JavaScript string is an Isabelle \<open>string\<close>, read as
  the sequence of bytes of its UTF-8 encoding: two strings are equal when these sequences
  are, and an ASCII character is one byte, which occurs in no other character. Every string
  literal and every pattern of the source is ASCII.
\<close>

type_synonym byte = "8 word"
type_synonym buffer = "byte list"

text \<open>The exceptions the modelled code can raise.\<close>

datatype error =
  PacketTooSmall      \<comment> \<open>\<open>Error('Packet too small to be valid')\<close>\<close>
| InvalidHeader       \<comment> \<open>\<open>Error('Invalid header')\<close>\<close>
| IncompletePacket    \<comment> \<open>\<open>Error('Incomplete packet')\<close>\<close>
| RangeError          \<comment> \<open>a Buffer read or write outside its range\<close>
| TypeError           \<comment> \<open>a property read on \<open>null\<close>\<close>

text \<open>\<open>Buffer.from(s, 'utf8')\<close> and \<open>Buffer.from(s, 'ascii')\<close> on the strings of the source.\<close>

definition Buffer_from :: "string \<Rightarrow> buffer" where
  "Buffer_from s = map of_char s"

text \<open>
  \<open>buf.toString('ascii', 0, 2)\<close>: Node clears the highest bit of every byte when it decodes
  as ASCII; the end index is clamped to the length of the buffer.
\<close>

definition toString_ascii :: "buffer \<Rightarrow> string" where
  "toString_ascii b = map (\<lambda>x. char_of (unat (x AND 0x7F))) b"

text \<open>
  \<open>buf.toString('utf8')\<close>. A well-formed UTF-8 byte sequence (the Unicode Standard, table
  3-7) decodes to the string it encodes, which is the string these bytes represent. An
  ill-formed sequence decodes to a string that holds U+FFFD where the sequence is ill-formed:
  the result is \<open>None\<close> then, which stands for such a string, how many U+FFFD it holds and
  between which characters being left open. That string is not ASCII, and the source does
  nothing with a decoded name but remove its NUL characters, compare it with an ASCII
  literal and match it against a pattern of ASCII characters.
\<close>

definition continuation :: "byte \<Rightarrow> bool" where
  "continuation x \<longleftrightarrow> 0x80 \<le> x \<and> x \<le> 0xBF"

fun well_formed_utf8 :: "buffer \<Rightarrow> bool" where
  "well_formed_utf8 [] = True"
| "well_formed_utf8 (x # xs) =
     (if x \<le> 0x7F then well_formed_utf8 xs
      else if 0xC2 \<le> x \<and> x \<le> 0xDF then
        (case xs of
           y # ys \<Rightarrow> continuation y \<and> well_formed_utf8 ys
         | _ \<Rightarrow> False)
      else if 0xE0 \<le> x \<and> x \<le> 0xEF then
        (case xs of
           y # z # zs \<Rightarrow>
             (if x = 0xE0 then 0xA0 \<le> y \<and> y \<le> 0xBF
              else if x = 0xED then 0x80 \<le> y \<and> y \<le> 0x9F
              else continuation y)
             \<and> continuation z \<and> well_formed_utf8 zs
         | _ \<Rightarrow> False)
      else if 0xF0 \<le> x \<and> x \<le> 0xF4 then
        (case xs of
           y # z # w # ws \<Rightarrow>
             (if x = 0xF0 then 0x90 \<le> y \<and> y \<le> 0xBF
              else if x = 0xF4 then 0x80 \<le> y \<and> y \<le> 0x8F
              else continuation y)
             \<and> continuation z \<and> continuation w \<and> well_formed_utf8 ws
         | _ \<Rightarrow> False)
      else False)"

definition toString_utf8 :: "buffer \<Rightarrow> string option" where
  "toString_utf8 b = (if well_formed_utf8 b then Some (map (\<lambda>x. char_of (unat x)) b) else None)"

text \<open>\<open>buf.writeUInt16LE(n, 0)\<close> on a fresh two-byte buffer raises when \<open>n\<close> is above 65535.\<close>

definition u16le :: "nat \<Rightarrow> buffer" where
  "u16le n = [of_nat (n mod 256), of_nat (n div 256 mod 256)]"

definition writeUInt16LE :: "nat \<Rightarrow> error + buffer" where
  "writeUInt16LE n = (if n \<le> 65535 then Inr (u16le n) else Inl RangeError)"

definition u32le :: "nat \<Rightarrow> buffer" where
  "u32le n = [of_nat (n mod 256), of_nat (n div 256 mod 256),
              of_nat (n div 65536 mod 256), of_nat (n div 16777216 mod 256)]"

text \<open>\<open>buf.readUInt16LE(off)\<close> raises unless both bytes are inside the buffer.\<close>

definition readUInt16LE :: "buffer \<Rightarrow> nat \<Rightarrow> error + nat" where
  "readUInt16LE b off =
     (if off + 2 \<le> length b then Inr (unat (b ! off) + 256 * unat (b ! (off + 1)))
      else Inl RangeError)"

text \<open>
  A 32-bit float is modelled by its IEEE-754 binary32 bit pattern. \<open>writeFloatLE\<close> stores the
  pattern least significant byte first and \<open>readFloatLE(off)\<close> reads it back; the read raises
  when \<open>off\<close> is negative or fewer than four bytes follow it.
\<close>

type_synonym float32 = "32 word"

definition writeFloatLE :: "float32 \<Rightarrow> buffer" where
  "writeFloatLE v = [ucast v, ucast (drop_bit 8 v), ucast (drop_bit 16 v), ucast (drop_bit 24 v)]"

definition f32_of_bytes :: "byte \<Rightarrow> byte \<Rightarrow> byte \<Rightarrow> byte \<Rightarrow> float32" where
  "f32_of_bytes b0 b1 b2 b3 =
     ucast b0 OR push_bit 8 (ucast b1) OR push_bit 16 (ucast b2) OR push_bit 24 (ucast b3)"

definition readFloatLE :: "buffer \<Rightarrow> int \<Rightarrow> error + float32" where
  "readFloatLE b off =
     (if 0 \<le> off \<and> nat off + 4 \<le> length b
      then Inr (f32_of_bytes (b ! nat off) (b ! (nat off + 1)) (b ! (nat off + 2)) (b ! (nat off + 3)))
      else Inl RangeError)"

text \<open>The two float constants the source writes: \<open>1.0\<close> and \<open>0.0\<close>.\<close>

definition f32_one :: float32 where
  "f32_one = 0x3F800000"

definition f32_zero :: float32 where
  "f32_zero = 0"

text \<open>
  \<open>val > 0\<close> on a binary32 value: the sign bit is clear, the value is not zero and it is not a
  NaN (exponent all ones with a non-zero mantissa). Positive infinity is \<open>0x7F800000\<close>.
\<close>

definition float_gt_zero :: "float32 \<Rightarrow> bool" where
  "float_gt_zero v \<longleftrightarrow> 0 < v \<and> v \<le> 0x7F800000"

text \<open>
  \<open>buf.slice(start, end)\<close> with the index rules of JavaScript: a negative index counts from
  the end, and both are clamped to the buffer.
\<close>

definition slice_index :: "nat \<Rightarrow> int \<Rightarrow> nat" where
  "slice_index len i = (if i < 0 then nat (int len + i) else min (nat i) len)"

definition slice :: "buffer \<Rightarrow> int \<Rightarrow> int \<Rightarrow> buffer" where
  "slice b start end =
     (let s = slice_index (length b) start; e = slice_index (length b) end
      in take (e - s) (drop s b))"

section \<open>Packet codec\<close>

record addressPair =
  a :: nat
  b :: nat

record packet =
  type :: string
  addressPair :: addressPair
  data :: buffer

text \<open>The header every builder writes: \<open>Buffer.from('UC\x00\x01', 'ascii')\<close>.\<close>

definition build_header :: buffer where
  "build_header = [0x55, 0x43, 0x00, 0x01]"

definition parsePacket :: "buffer \<Rightarrow> error + packet" where
  "parsePacket d =
     (if length d < 6 then Inl PacketTooSmall
      else
        let header = slice d 0 6 in
        if toString_ascii (take 2 header) \<noteq> ''UC'' \<or> readUInt16LE header 2 \<noteq> Inr 1
        then Inl InvalidHeader
        else
          case readUInt16LE header 4 of
            Inl e \<Rightarrow> Inl e
          | Inr psize \<Rightarrow>
              if length d < 6 + psize then Inl IncompletePacket
              else
                let payload = slice d 6 (6 + int psize);
                    ty = toString_ascii (take 2 payload)
                in (case readUInt16LE payload 2 of
                      Inl e \<Rightarrow> Inl e
                    | Inr pa \<Rightarrow>
                        (case readUInt16LE payload 4 of
                           Inl e \<Rightarrow> Inl e
                         | Inr pb \<Rightarrow>
                             Inr \<lparr>type = ty, addressPair = \<lparr>a = pa, b = pb\<rparr>,
                                  data = slice payload 6 (int (length payload))\<rparr>)))"

text \<open>
  The four builders. Each one ends with
  \<open>size.writeUInt16LE(payload.length, 0); Buffer.concat([header, size, payload])\<close>.
\<close>

definition finish_packet :: "buffer \<Rightarrow> error + buffer" where
  "finish_packet payload =
     (case writeUInt16LE (length payload) of
        Inl e \<Rightarrow> Inl e
      | Inr psize \<Rightarrow> Inr (build_header @ psize @ payload))"

definition buildUMPacket :: "nat \<Rightarrow> error + buffer" where
  "buildUMPacket udpPort =
     (case writeUInt16LE udpPort of
        Inl e \<Rightarrow> Inl e
      | Inr portBuffer \<Rightarrow>
          finish_packet (Buffer_from ''UM'' @ (u16le 0x00 @ u16le 0x66) @ portBuffer))"

text \<open>\<open>JSON.stringify(subMsg)\<close> of the fixed subscription object.\<close>

definition subMsgStr :: string where
  "subMsgStr = [CHR ''{'', CHR 0x22] @ ''id'' @ [CHR 0x22, CHR '':'', CHR 0x22] @ ''Subscribe''
     @ [CHR 0x22, CHR '','', CHR 0x22] @ ''clientName'' @ [CHR 0x22, CHR '':'', CHR 0x22]
     @ ''Universal Control''
     @ [CHR 0x22, CHR '','', CHR 0x22] @ ''clientInternalName'' @ [CHR 0x22, CHR '':'', CHR 0x22]
     @ ''ucremoteapp''
     @ [CHR 0x22, CHR '','', CHR 0x22] @ ''clientType'' @ [CHR 0x22, CHR '':'', CHR 0x22]
     @ ''iPhone''
     @ [CHR 0x22, CHR '','', CHR 0x22] @ ''clientDescription'' @ [CHR 0x22, CHR '':'', CHR 0x22]
     @ ''iPhone''
     @ [CHR 0x22, CHR '','', CHR 0x22] @ ''clientIdentifier'' @ [CHR 0x22, CHR '':'', CHR 0x22]
     @ ''BE705B5B-ACEC-4941-9ABA-4FB5CA04AC6D''
     @ [CHR 0x22, CHR '','', CHR 0x22] @ ''clientOptions'' @ [CHR 0x22, CHR '':'', CHR 0x22]
     @ [CHR 0x22, CHR '','', CHR 0x22] @ ''clientEncoding'' @ [CHR 0x22, CHR '':'']
     @ ''23117}''"

definition buildJMPacket :: "error + buffer" where
  "buildJMPacket =
     (let subMsgBuffer = Buffer_from subMsgStr;
          subMsgLength = u32le (length subMsgBuffer)
      in finish_packet (Buffer_from ''JM'' @ (u16le 0x68 @ u16le 0x66) @ subMsgLength @ subMsgBuffer))"

definition buildKAPacket :: "error + buffer" where
  "buildKAPacket = finish_packet (Buffer_from ''KA'' @ (u16le 0x68 @ u16le 0x66))"

definition buildPVPacket :: "string \<Rightarrow> float32 \<Rightarrow> error + buffer" where
  "buildPVPacket name v =
     (let nameBuffer = Buffer_from name;
          padding = [0x00, 0x00, 0x00];
          valueBuffer = writeFloatLE v
      in finish_packet (Buffer_from ''PV'' @ (u16le 0x68 @ u16le 0x66) @ nameBuffer @ padding @ valueBuffer))"

section \<open>State store\<close>

text \<open>
  A channel record is a JavaScript object with the optional boolean properties \<open>mute\<close>,
  \<open>solo\<close>, \<open>48v\<close>, \<open>hpf\<close> and \<open>pad\<close>: a partial map from the attribute to its value.
  \<open>this.channelStates\<close> maps a channel number to its record. A channel number is a natural
  number below \<open>2 ^ 53\<close>: these are the numbers JavaScript holds exactly, prints in plain
  decimal digits and reads back from them, and every statement about a channel number below
  is made for such a number.
\<close>

datatype attr = Mute | Solo | V48 | Hpf | Pad

fun attr_name :: "attr \<Rightarrow> string" where
  "attr_name Mute = ''mute''"
| "attr_name Solo = ''solo''"
| "attr_name V48 = ''48v''"
| "attr_name Hpf = ''hpf''"
| "attr_name Pad = ''pad''"

type_synonym channelState = "attr \<rightharpoonup> bool"

datatype level = Debug | Info | Warn | Error

text \<open>
  The fields of the instance the modelled methods read and write. \<open>tcpWritable\<close> stands for
  \<open>this.tcpClient && !this.tcpClient.destroyed\<close>, \<open>tcpWritten\<close> collects the buffers handed to
  \<open>this.tcpClient.write\<close>, and \<open>logged\<close> collects the calls of \<open>this.log\<close> (the level and the
  fixed part of the message). \<open>this.checkFeedbacks\<close> notifies the host and changes nothing
  here; it is left out.
\<close>

record state =
  channelStates :: "nat \<rightharpoonup> channelState"
  mixerBypassState :: bool
  receiveBuffer :: buffer
  tcpWritable :: bool
  tcpWritten :: "buffer list"
  logged :: "(level \<times> string) list"

definition logmsg :: "level \<Rightarrow> string \<Rightarrow> state \<Rightarrow> state" where
  "logmsg l m st = st\<lparr>logged := logged st @ [(l, m)]\<rparr>"

text \<open>The constructor; no TCP client exists before \<open>initTCP\<close>.\<close>

definition constructor :: state where
  "constructor = \<lparr>channelStates = Map.empty, mixerBypassState = False, receiveBuffer = [],
     tcpWritable = False, tcpWritten = [], logged = []\<rparr>"

text \<open>
  The read every feedback callback and every toggle starts with:
  \<open>channelState && typeof channelState[attr] === 'boolean'\<close>, then the value.
\<close>

definition readAttr :: "state \<Rightarrow> nat \<Rightarrow> attr \<Rightarrow> bool option" where
  "readAttr st channel atr =
     (case channelStates st channel of None \<Rightarrow> None | Some channelState \<Rightarrow> channelState atr)"

text \<open>
  The feedback callbacks return \<open>{ bgcolor: ... }\<close> or \<open>null\<close> (\<open>None\<close>). The four channel
  callbacks differ in the attribute and in the names of the two colours only.
\<close>

definition channel_feedback :: "state \<Rightarrow> nat \<Rightarrow> attr \<Rightarrow> 'c \<Rightarrow> 'c \<Rightarrow> 'c option" where
  "channel_feedback st channel atr onColor offColor =
     (case readAttr st channel atr of
        Some v \<Rightarrow> if v then Some onColor else Some offColor
      | None \<Rightarrow> None)"

definition channel_mute_state :: "state \<Rightarrow> nat \<Rightarrow> 'c \<Rightarrow> 'c \<Rightarrow> 'c option" where
  "channel_mute_state st channel mutedColor unmutedColor =
     channel_feedback st channel Mute mutedColor unmutedColor"

definition channel_solo_state :: "state \<Rightarrow> nat \<Rightarrow> 'c \<Rightarrow> 'c \<Rightarrow> 'c option" where
  "channel_solo_state st channel soloColor normalColor =
     channel_feedback st channel Solo soloColor normalColor"

definition channel_hpf_state :: "state \<Rightarrow> nat \<Rightarrow> 'c \<Rightarrow> 'c \<Rightarrow> 'c option" where
  "channel_hpf_state st channel hpfColor normalColor =
     channel_feedback st channel Hpf hpfColor normalColor"

definition channel_48v_state :: "state \<Rightarrow> nat \<Rightarrow> 'c \<Rightarrow> 'c \<Rightarrow> 'c option" where
  "channel_48v_state st channel onColor offColor =
     channel_feedback st channel V48 onColor offColor"

text \<open>
  \<open>mixer_bypass_state\<close>: \<open>this.mixerBypassState\<close> is a boolean from the constructor on, so
  the test \<open>typeof this.mixerBypassState === 'boolean'\<close> always holds.
\<close>

definition mixer_bypass_state :: "state \<Rightarrow> 'c \<Rightarrow> 'c \<Rightarrow> 'c option" where
  "mixer_bypass_state st bypassedColor activeColor =
     (if mixerBypassState st then Some bypassedColor else Some activeColor)"

section \<open>Parameter paths\<close>

text \<open>
  The decimal digits of a number: what a template literal prints for a channel number
  (a non-negative integer below \<open>2 ^ 53\<close>).
\<close>

definition digit_char :: "nat \<Rightarrow> char" where
  "digit_char d = char_of (48 + d)"

fun show_nat :: "nat \<Rightarrow> string" where
  "show_nat n = (if n < 10 then [digit_char n] else show_nat (n div 10) @ [digit_char (n mod 10)])"

declare show_nat.simps [simp del]

text \<open>
  \<open>\d\<close> and \<open>parseInt(digits, 10)\<close> on a string of decimal digits. \<open>parseInt\<close> is the number
  the digits denote as long as that is below \<open>2 ^ 53\<close>; from there on JavaScript rounds it to
  a double, which is not modelled: the statements below are made for digits that denote a
  number below \<open>2 ^ 53\<close>.
\<close>

definition is_digit :: "char \<Rightarrow> bool" where
  "is_digit c \<longleftrightarrow> 48 \<le> (of_char c :: nat) \<and> (of_char c :: nat) \<le> 57"

definition parseInt :: "string \<Rightarrow> nat" where
  "parseInt ds = foldl (\<lambda>acc c. 10 * acc + (of_char c - 48)) 0 ds"

definition attr_of_name :: "string \<Rightarrow> attr option" where
  "attr_of_name s =
     (if s = ''mute'' then Some Mute else if s = ''solo'' then Some Solo
      else if s = ''48v'' then Some V48 else if s = ''hpf'' then Some Hpf
      else if s = ''pad'' then Some Pad else None)"

text \<open>
  \<open>s.match(/^<prefix>(\d+)<rest>$/)\<close>: the digits are the longest run after the prefix, since
  what follows them in both patterns of the source is not a digit.
\<close>

definition match_prefix_digits :: "string \<Rightarrow> string \<Rightarrow> (string \<times> string) option" where
  "match_prefix_digits pre s =
     (if take (length pre) s = pre \<and> takeWhile is_digit (drop (length pre) s) \<noteq> []
      then Some (takeWhile is_digit (drop (length pre) s), dropWhile is_digit (drop (length pre) s))
      else None)"

text \<open>\<open>name.match(/^line\/ch(\d+)\/(mute|solo|48v|hpf|pad)$/)\<close>\<close>

definition match_line :: "string \<Rightarrow> (nat \<times> attr) option" where
  "match_line name =
     (case match_prefix_digits ''line/ch'' name of
        None \<Rightarrow> None
      | Some (ds, rest) \<Rightarrow>
          (case rest of
             [] \<Rightarrow> None
           | c # an \<Rightarrow>
               if c = CHR ''/'' then map_option (Pair (parseInt ds)) (attr_of_name an) else None))"

text \<open>\<open>key.match(/^ch(\d+)$/)\<close>\<close>

definition match_ch :: "string \<Rightarrow> nat option" where
  "match_ch key =
     (case match_prefix_digits ''ch'' key of
        None \<Rightarrow> None
      | Some (ds, rest) \<Rightarrow> if rest = [] then Some (parseInt ds) else None)"

section \<open>Delta update: PV packets\<close>

text \<open>
  The first three statements of \<open>handlePVPacket\<close>: the name is everything before the last
  four bytes, decoded and with the NUL characters removed, the value is the float in the last
  four bytes. \<open>readFloatLE\<close> raises on a body shorter than four bytes.
\<close>

definition decodePV :: "buffer \<Rightarrow> error + (string option \<times> float32)" where
  "decodePV d =
     (let nameLength = int (length d) - 4;
          name = map_option (filter (\<lambda>c. c \<noteq> CHR 0x00)) (toString_utf8 (slice d 0 nameLength))
      in case readFloatLE d nameLength of
           Inl e \<Rightarrow> Inl e
         | Inr val \<Rightarrow> Inr (name, val))"

text \<open>
  The rest of \<open>handlePVPacket\<close>. A name that holds U+FFFD (\<open>None\<close>) is not the literal and
  does not match the pattern.
\<close>

definition handlePVPacket :: "state \<Rightarrow> packet \<Rightarrow> error + state" where
  "handlePVPacket st pkt =
     (case decodePV (data pkt) of
        Inl e \<Rightarrow> Inl e
      | Inr (name, val) \<Rightarrow>
          if name = Some ''global/mixerBypass''
          then let isBypassed = float_gt_zero val
               in Inr (logmsg Debug ''Mixer Bypass state updated via PV packet''
                         (st\<lparr>mixerBypassState := isBypassed\<rparr>))
          else
            (case Option.bind name match_line of
              Some (channelNumber, parameter) \<Rightarrow>
                let isActive = float_gt_zero val;
                    old = (case channelStates st channelNumber of
                             None \<Rightarrow> Map.empty | Some cs \<Rightarrow> cs);
                    st1 = logmsg Debug ''Channel state updated via PV packet''
                            (st\<lparr>channelStates :=
                                   (channelStates st)(channelNumber \<mapsto> old(parameter \<mapsto> isActive))\<rparr>)
                in Inr (if parameter = Mute
                        then logmsg Debug ''Updated channel mute state'' st1 else st1)
            | None \<Rightarrow> Inr st))"

section \<open>Commands\<close>

definition sendPacket :: "state \<Rightarrow> buffer \<Rightarrow> state" where
  "sendPacket st p =
     (if tcpWritable st then st\<lparr>tcpWritten := tcpWritten st @ [p]\<rparr>
      else logmsg Error ''TCP client is not connected'' st)"

text \<open>
  The setters build a PV packet and send it; an exception of the builder leaves the setter
  before anything is sent. The five channel setters differ in the attribute name only.
\<close>

definition setMixerBypass :: "state \<Rightarrow> bool \<Rightarrow> error + state" where
  "setMixerBypass st bypass =
     (case buildPVPacket ''global/mixerBypass'' (if bypass then f32_one else f32_zero) of
        Inl e \<Rightarrow> Inl e
      | Inr p \<Rightarrow> Inr (sendPacket st p))"

definition channel_path :: "nat \<Rightarrow> string \<Rightarrow> string" where
  "channel_path channelNumber an = ''line/ch'' @ show_nat channelNumber @ ''/'' @ an"

definition setChannel :: "string \<Rightarrow> state \<Rightarrow> nat \<Rightarrow> bool \<Rightarrow> error + state" where
  "setChannel an st channelNumber v =
     (case buildPVPacket (channel_path channelNumber an) (if v then f32_one else f32_zero) of
        Inl e \<Rightarrow> Inl e
      | Inr p \<Rightarrow> Inr (sendPacket st p))"

definition setChannelMute :: "state \<Rightarrow> nat \<Rightarrow> bool \<Rightarrow> error + state" where
  "setChannelMute = setChannel ''mute''"

definition setChannelSolo :: "state \<Rightarrow> nat \<Rightarrow> bool \<Rightarrow> error + state" where
  "setChannelSolo = setChannel ''solo''"

definition setChannel48V :: "state \<Rightarrow> nat \<Rightarrow> bool \<Rightarrow> error + state" where
  "setChannel48V = setChannel ''48v''"

definition setChannelHPF :: "state \<Rightarrow> nat \<Rightarrow> bool \<Rightarrow> error + state" where
  "setChannelHPF = setChannel ''hpf''"

definition setChannelPad :: "state \<Rightarrow> nat \<Rightarrow> bool \<Rightarrow> error + state" where
  "setChannelPad = setChannel ''pad''"

text \<open>\<open>this.channelStates[channelNumber][attr] = v\<close> on an existing record.\<close>

definition assign_attr :: "nat \<Rightarrow> attr \<Rightarrow> bool \<Rightarrow> state \<Rightarrow> state" where
  "assign_attr channelNumber atr v st =
     (case channelStates st channelNumber of
        None \<Rightarrow> st
      | Some cs \<Rightarrow> st\<lparr>channelStates := (channelStates st)(channelNumber \<mapsto> cs(atr \<mapsto> v))\<rparr>)"

definition toggleMixerBypass :: "state \<Rightarrow> error + state" where
  "toggleMixerBypass st =
     (let newBypassState = \<not> mixerBypassState st
      in case setMixerBypass st newBypassState of
           Inl e \<Rightarrow> Inl e
         | Inr st1 \<Rightarrow> Inr (logmsg Info ''Mixer Bypass toggled'' (st1\<lparr>mixerBypassState := newBypassState\<rparr>)))"

definition toggleChannelMute :: "state \<Rightarrow> nat \<Rightarrow> error + state" where
  "toggleChannelMute st channelNumber =
     map_sum id (logmsg Info ''Calling checkFeedbacks for channel_mute_state'')
       (case readAttr st channelNumber Mute of
          Some mute \<Rightarrow>
            (let newMuteState = \<not> mute
             in case setChannelMute st channelNumber newMuteState of
                  Inl e \<Rightarrow> Inl e
                | Inr st1 \<Rightarrow>
                    Inr (logmsg Info ''Channel mute toggled'' (assign_attr channelNumber Mute newMuteState st1)))
        | None \<Rightarrow>
            (case setChannelMute st channelNumber True of
               Inl e \<Rightarrow> Inl e
             | Inr st1 \<Rightarrow>
                 Inr (logmsg Warn ''Channel mute state unknown. Defaulting to mute.''
                        (st1\<lparr>channelStates := (channelStates st1)(channelNumber \<mapsto> [Mute \<mapsto> True])\<rparr>))))"

text \<open>\<open>{ ...currentState, [attr]: v }\<close>; spreading \<open>undefined\<close> adds nothing.\<close>

definition spread_with :: "channelState option \<Rightarrow> attr \<Rightarrow> bool \<Rightarrow> channelState" where
  "spread_with currentState atr v =
     (case currentState of None \<Rightarrow> Map.empty | Some cs \<Rightarrow> cs)(atr \<mapsto> v)"

definition toggleChannelSolo :: "state \<Rightarrow> nat \<Rightarrow> error + state" where
  "toggleChannelSolo st channelNumber =
     (let currentState = channelStates st channelNumber
      in case readAttr st channelNumber Solo of
           Some solo \<Rightarrow>
             (let newSoloState = \<not> solo
              in case setChannelSolo st channelNumber newSoloState of
                   Inl e \<Rightarrow> Inl e
                 | Inr st1 \<Rightarrow>
                     Inr (logmsg Info ''Channel solo toggled'' (assign_attr channelNumber Solo newSoloState st1)))
         | None \<Rightarrow>
             (case setChannelSolo st channelNumber True of
                Inl e \<Rightarrow> Inl e
              | Inr st1 \<Rightarrow>
                  Inr (logmsg Warn ''Channel solo state unknown. Defaulting to solo.''
                         (st1\<lparr>channelStates :=
                                (channelStates st1)(channelNumber \<mapsto> spread_with currentState Solo True)\<rparr>))))"

definition toggleChannel48V :: "state \<Rightarrow> nat \<Rightarrow> error + state" where
  "toggleChannel48V st channelNumber =
     (let currentState = channelStates st channelNumber
      in case readAttr st channelNumber V48 of
           Some v48 \<Rightarrow>
             (let new48VState = \<not> v48
              in case setChannel48V st channelNumber new48VState of
                   Inl e \<Rightarrow> Inl e
                 | Inr st1 \<Rightarrow>
                     Inr (logmsg Info ''Channel 48V toggled'' (assign_attr channelNumber V48 new48VState st1)))
         | None \<Rightarrow>
             (case setChannel48V st channelNumber False of
                Inl e \<Rightarrow> Inl e
              | Inr st1 \<Rightarrow>
                  Inr (logmsg Warn ''Channel 48V state unknown. Defaulting to off.''
                         (st1\<lparr>channelStates :=
                                (channelStates st1)(channelNumber \<mapsto> spread_with currentState V48 False)\<rparr>))))"

definition toggleChannelHPF :: "state \<Rightarrow> nat \<Rightarrow> error + state" where
  "toggleChannelHPF st channelNumber =
     (let currentState = channelStates st channelNumber
      in case readAttr st channelNumber Hpf of
           Some hpf \<Rightarrow>
             (let newHPFState = \<not> hpf
              in case setChannelHPF st channelNumber newHPFState of
                   Inl e \<Rightarrow> Inl e
                 | Inr st1 \<Rightarrow>
                     Inr (logmsg Info ''Channel HPF toggled'' (assign_attr channelNumber Hpf newHPFState st1)))
         | None \<Rightarrow>
             (case setChannelHPF st channelNumber False of
                Inl e \<Rightarrow> Inl e
              | Inr st1 \<Rightarrow>
                  Inr (logmsg Warn ''Channel HPF state unknown. Defaulting to off.''
                         (st1\<lparr>channelStates :=
                                (channelStates st1)(channelNumber \<mapsto> spread_with currentState Hpf False)\<rparr>))))"

definition toggleChannelPad :: "state \<Rightarrow> nat \<Rightarrow> error + state" where
  "toggleChannelPad st channelNumber =
     (let currentState = channelStates st channelNumber
      in case readAttr st channelNumber Pad of
           Some pad \<Rightarrow>
             (let newPadState = \<not> pad
              in case setChannelPad st channelNumber newPadState of
                   Inl e \<Rightarrow> Inl e
                 | Inr st1 \<Rightarrow>
                     Inr (logmsg Info ''Channel pad toggled'' (assign_attr channelNumber Pad newPadState st1)))
         | None \<Rightarrow>
             (case setChannelPad st channelNumber False of
                Inl e \<Rightarrow> Inl e
              | Inr st1 \<Rightarrow>
                  Inr (logmsg Warn ''Channel pad state unknown. Defaulting to off.''
                         (st1\<lparr>channelStates :=
                                (channelStates st1)(channelNumber \<mapsto> spread_with currentState Pad False)\<rparr>))))"

section \<open>Snapshot update: ZM packets\<close>

text \<open>
  The value \<open>JSON.parse\<close> returns. A number is a finite double, kept as the rational it
  denotes, or an infinity (a literal beyond the range of a double). An object is the list of
  its own properties in the order \<open>Object.entries\<close> enumerates them.
\<close>

datatype jsnum = Finite rat | PosInfinity | NegInfinity

datatype json =
  JNull
| JBool bool
| JNum jsnum
| JStr string
| JArr "json list"
| JObj "(string \<times> json) list"

text \<open>
  The result of a property read: \<open>undefined\<close>, a value of the document, or the function
  \<open>Array.prototype.values\<close>, which is what \<open>.values\<close> of an array is.
\<close>

datatype jsvalue = Undefined | Json json | ArrayValues

text \<open>
  \<open>v[k]\<close> for the property names the source reads (\<open>children\<close>, \<open>line\<close>, \<open>global\<close>,
  \<open>values\<close>, \<open>mixerBypass\<close> and the five attribute names): only an object has own properties
  of these names, and only \<open>values\<close> is inherited, by arrays. The read raises on \<open>null\<close> and
  \<open>undefined\<close>; the source guards every read but one by a truthiness test, and that one is
  tested where it occurs, so \<open>field\<close> gives \<open>Undefined\<close> there.
\<close>

fun field :: "jsvalue \<Rightarrow> string \<Rightarrow> jsvalue" where
  "field (Json (JObj kvs)) k = (case map_of kvs k of None \<Rightarrow> Undefined | Some v \<Rightarrow> Json v)"
| "field (Json (JArr xs)) k = (if k = ''values'' then ArrayValues else Undefined)"
| "field _ k = Undefined"

text \<open>Truthiness: \<open>undefined\<close>, \<open>null\<close>, \<open>false\<close>, \<open>0\<close> and \<open>""\<close> are falsy.\<close>

fun truthy :: "jsvalue \<Rightarrow> bool" where
  "truthy Undefined = False"
| "truthy ArrayValues = True"
| "truthy (Json JNull) = False"
| "truthy (Json (JBool v)) = v"
| "truthy (Json (JNum n)) = (n \<noteq> Finite 0)"
| "truthy (Json (JStr s)) = (s \<noteq> [])"
| "truthy (Json (JArr xs)) = True"
| "truthy (Json (JObj kvs)) = True"

text \<open>
  \<open>Object.entries(v)\<close> of a truthy value. The keys of an array are its indices; those of a
  string are indices too, and since no index matches \<open>/^ch(\d+)$/\<close> and the loop body does
  nothing for a key that does not match, the entries of a string are left out.
\<close>

fun Object_entries :: "jsvalue \<Rightarrow> (string \<times> json) list" where
  "Object_entries (Json (JObj kvs)) = kvs"
| "Object_entries (Json (JArr xs)) = zip (map show_nat [0..<length xs]) xs"
| "Object_entries _ = []"

text \<open>
  What the module takes from outside: \<open>zlib.inflateRawSync\<close>, \<open>JSON.parse\<close> of the UTF-8
  decoded text (\<open>None\<close> when they raise), and the comparison \<open>v > 0\<close> of JavaScript on a
  string, an array or an object of the document, which converts \<open>v\<close> to a number through
  its text.
\<close>

record externals =
  inflateRawSync :: "buffer \<Rightarrow> buffer option"
  JSON_parse :: "buffer \<Rightarrow> json option"
  gt0 :: "json \<Rightarrow> bool"

text \<open>
  \<open>v > 0\<close> on a value of the document: a number is compared as it is, \<open>true\<close> is 1, \<open>false\<close>
  and \<open>null\<close> are 0, and the comparison on a string, an array or an object is the one taken
  from outside.
\<close>

definition greater_than_0 :: "(json \<Rightarrow> bool) \<Rightarrow> json \<Rightarrow> bool" where
  "greater_than_0 conv v =
     (case v of
        JNum x \<Rightarrow> (case x of Finite r \<Rightarrow> 0 < r | PosInfinity \<Rightarrow> True | NegInfinity \<Rightarrow> False)
      | JBool t \<Rightarrow> t
      | JNull \<Rightarrow> False
      | _ \<Rightarrow> conv v)"

text \<open>\<open>if (values[attr] !== undefined) { record[attr] = values[attr] > 0 }\<close>\<close>

definition update_attr :: "(json \<Rightarrow> bool) \<Rightarrow> jsvalue \<Rightarrow> attr \<Rightarrow> channelState \<Rightarrow> channelState" where
  "update_attr g vals atr cs =
     (case field vals (attr_name atr) of Json v \<Rightarrow> cs(atr \<mapsto> g v) | _ \<Rightarrow> cs)"

text \<open>
  One iteration of the loop of \<open>updateChannelStates\<close>. \<open>channelData.values\<close> is read once the
  key has matched, and raises a TypeError when \<open>channelData\<close> is \<open>null\<close>.
\<close>

definition channel_entry :: "(json \<Rightarrow> bool) \<Rightarrow> state \<Rightarrow> string \<times> json \<Rightarrow> error + state" where
  "channel_entry g st e =
     (case match_ch (fst e) of
        None \<Rightarrow> Inr st
      | Some channelNumber \<Rightarrow>
          if snd e = JNull then Inl TypeError
          else
            let vals = field (Json (snd e)) ''values'' in
            if \<not> truthy vals then Inr st
            else
              let cs0 = (case channelStates st channelNumber of None \<Rightarrow> Map.empty | Some cs \<Rightarrow> cs);
                  cs1 = update_attr g vals Mute cs0;
                  cs2 = update_attr g vals Solo cs1;
                  cs3 = update_attr g vals V48 cs2;
                  cs4 = update_attr g vals Hpf cs3;
                  cs5 = update_attr g vals Pad cs4
              in Inr (st\<lparr>channelStates := (channelStates st)(channelNumber \<mapsto> cs5)\<rparr>))"

text \<open>
  The \<open>for ... of\<close> loop: an exception ends it and leaves the records written so far. The
  result is the state and the exception, if any.
\<close>

fun channel_entries :: "(json \<Rightarrow> bool) \<Rightarrow> (string \<times> json) list \<Rightarrow> state \<Rightarrow> state \<times> error option" where
  "channel_entries g [] st = (st, None)"
| "channel_entries g (e # es) st =
     (case channel_entry g st e of
        Inl err \<Rightarrow> (st, Some err)
      | Inr st1 \<Rightarrow> channel_entries g es st1)"

text \<open>\<open>jsonData.children.line.children || {}\<close>, when the guard of \<open>updateChannelStates\<close> holds.\<close>

definition lineChildren :: "json \<Rightarrow> jsvalue option" where
  "lineChildren jsonData =
     (if truthy (Json jsonData) \<and> truthy (field (Json jsonData) ''children'')
         \<and> truthy (field (field (Json jsonData) ''children'') ''line'')
      then let c = field (field (field (Json jsonData) ''children'') ''line'') ''children''
           in Some (if truthy c then c else Json (JObj []))
      else None)"

definition updateChannelStates :: "(json \<Rightarrow> bool) \<Rightarrow> state \<Rightarrow> json \<Rightarrow> state \<times> error option" where
  "updateChannelStates g st jsonData =
     (case lineChildren jsonData of
        None \<Rightarrow> (st, None)
      | Some lc \<Rightarrow> channel_entries g (Object_entries lc) st)"

text \<open>\<open>jsonData.children.global.values || {}\<close>, when the guard of \<open>updateGlobalStates\<close> holds.\<close>

definition globalValues :: "json \<Rightarrow> jsvalue option" where
  "globalValues jsonData =
     (if truthy (Json jsonData) \<and> truthy (field (Json jsonData) ''children'')
         \<and> truthy (field (field (Json jsonData) ''children'') ''global'')
      then let v = field (field (field (Json jsonData) ''children'') ''global'') ''values''
           in Some (if truthy v then v else Json (JObj []))
      else None)"

definition updateGlobalStates :: "(json \<Rightarrow> bool) \<Rightarrow> state \<Rightarrow> json \<Rightarrow> state" where
  "updateGlobalStates g st jsonData =
     (case globalValues jsonData of
        None \<Rightarrow> st
      | Some gv \<Rightarrow>
          (case field gv ''mixerBypass'' of
             Json v \<Rightarrow>
               let isBypassed = g v
               in logmsg Debug ''Mixer Bypass state initialized'' (st\<lparr>mixerBypassState := isBypassed\<rparr>)
           | _ \<Rightarrow> st))"

text \<open>
  \<open>handleZMPacket\<close>. \<open>data.readUInt32LE(0)\<close> stands before the \<open>try\<close> and raises on a body
  shorter than four bytes. Everything raised inside the \<open>try\<close> is caught and logged.
\<close>

definition handleZMPacket :: "externals \<Rightarrow> state \<Rightarrow> packet \<Rightarrow> error + state" where
  "handleZMPacket ext st pkt =
     (if length (data pkt) < 4 then Inl RangeError
      else
        let compressedPayload = slice (data pkt) 4 (int (length (data pkt)));
            compressedData = slice compressedPayload 2 (int (length compressedPayload))
        in case inflateRawSync ext compressedData of
             None \<Rightarrow> Inr (logmsg Error ''Error decompressing ZM packet data'' st)
           | Some decompressed \<Rightarrow>
               (case JSON_parse ext decompressed of
                  None \<Rightarrow> Inr (logmsg Error ''Error decompressing ZM packet data'' st)
                | Some jsonData \<Rightarrow>
                    (case updateChannelStates (greater_than_0 (gt0 ext)) st jsonData of
                       (st1, Some err) \<Rightarrow> Inr (logmsg Error ''Error decompressing ZM packet data'' st1)
                     | (st1, None) \<Rightarrow>
                         Inr (updateGlobalStates (greater_than_0 (gt0 ext)) st1 jsonData))))"

subsection \<open>What a document sets\<close>

text \<open>
  An entry of the line children sets attribute \<open>atr\<close> of channel \<open>n\<close>
  when its key is \<open>ch<digits>\<close> for the number \<open>n\<close> and its \<open>values\<close> have a property of the
  attribute's name; the document has the attribute for the channel when one of the entries
  sets it. The document has the mixer bypass when \<open>children.global.values.mixerBypass\<close> is
  defined.
\<close>

definition entry_sets :: "nat \<Rightarrow> attr \<Rightarrow> string \<times> json \<Rightarrow> bool" where
  "entry_sets n atr e \<longleftrightarrow>
     match_ch (fst e) = Some n \<and> field (field (Json (snd e)) ''values'') (attr_name atr) \<noteq> Undefined"

definition document_has_attr :: "json \<Rightarrow> nat \<Rightarrow> attr \<Rightarrow> bool" where
  "document_has_attr jsonData n atr =
     (case lineChildren jsonData of
        None \<Rightarrow> False
      | Some lc \<Rightarrow> list_ex (entry_sets n atr) (Object_entries lc))"

definition document_has_mixerBypass :: "json \<Rightarrow> bool" where
  "document_has_mixerBypass jsonData =
     (case globalValues jsonData of
        None \<Rightarrow> False
      | Some gv \<Rightarrow> field gv ''mixerBypass'' \<noteq> Undefined)"

text \<open>
  The channel keys of a document are exact when the digits of every key \<open>ch<digits>\<close> of the
  line children denote a number below \<open>2 ^ 53\<close>, so that \<open>parseInt\<close> reads the number they
  denote.
\<close>

definition channel_keys_exact :: "json \<Rightarrow> bool" where
  "channel_keys_exact jsonData =
     (case lineChildren jsonData of
        None \<Rightarrow> True
      | Some lc \<Rightarrow>
          list_all (\<lambda>e. case match_ch (fst e) of None \<Rightarrow> True | Some m \<Rightarrow> m < 2 ^ 53)
            (Object_entries lc))"

text \<open>The document \<open>{"children":{"line":{"children":{"ch3":{"values":{"mute":1}}}}}}\<close>.\<close>

definition snapshot_ch3_mute :: json where
  "snapshot_ch3_mute =
     JObj [(''children'', JObj [(''line'', JObj [(''children'',
       JObj [(''ch3'', JObj [(''values'', JObj [(''mute'', JNum (Finite 1))])])])])])]"

text \<open>
  The document
  \<open>{"children":{"line":{"children":{"ch1":{"values":0},"aux1":{"values":{"mute":1}},
  "ch3":{"values":{"mute":0,"pad":true}}}}}}\<close>.
\<close>

definition snapshot_mixed :: json where
  "snapshot_mixed =
     JObj [(''children'', JObj [(''line'', JObj [(''children'',
       JObj [(''ch1'', JObj [(''values'', JNum (Finite 0))]),
             (''aux1'', JObj [(''values'', JObj [(''mute'', JNum (Finite 1))])]),
             (''ch3'', JObj [(''values'', JObj [(''mute'', JNum (Finite 0)), (''pad'', JBool True)])])])])])]"

text \<open>The document \<open>{"children":{"global":{"values":{"mixerBypass":0}}}}\<close>.\<close>

definition snapshot_bypass_off :: json where
  "snapshot_bypass_off =
     JObj [(''children'', JObj [(''global'', JObj [(''values'',
       JObj [(''mixerBypass'', JNum (Finite 0))])])])]"

section \<open>Frame reassembler\<close>

text \<open>\<open>buf.indexOf('UC', 0, 'ascii')\<close>: the first position of the bytes 0x55 0x43.\<close>

fun indexOf_UC :: "buffer \<Rightarrow> nat option" where
  "indexOf_UC (x # y # zs) =
     (if x = 0x55 \<and> y = 0x43 then Some 0 else map_option Suc (indexOf_UC (y # zs)))"
| "indexOf_UC _ = None"

text \<open>
  The body of the \<open>try\<close> in \<open>handleIncomingData\<close>: parse the packet and hand it to the handler
  of its type. An exception is the \<open>Inl\<close> result; every handler raises before it writes.
\<close>

definition dispatch :: "externals \<Rightarrow> state \<Rightarrow> buffer \<Rightarrow> error + state" where
  "dispatch ext st packetData =
     (case parsePacket packetData of
        Inl e \<Rightarrow> Inl e
      | Inr pkt \<Rightarrow>
          if type pkt = ''ZM'' then handleZMPacket ext st pkt
          else if type pkt = ''PV'' then handlePVPacket st pkt
          else Inr st)"

text \<open>
  One iteration of the \<open>while\<close> loop, entered with at least six bytes in the buffer:
  \<open>Break\<close> leaves the loop, \<open>Continue\<close> goes back to its test. The two reads of the header
  are in range, the buffer holding six bytes by then.
\<close>

datatype 'a iteration = Break 'a | Continue 'a

definition u16_at :: "buffer \<Rightarrow> nat \<Rightarrow> nat" where
  "u16_at buf off = unat (buf ! off) + 256 * unat (buf ! (off + 1))"

definition loop_body :: "externals \<Rightarrow> state \<Rightarrow> state iteration" where
  "loop_body ext st =
     (case indexOf_UC (receiveBuffer st) of
        None \<Rightarrow>
          Break ((logmsg Warn ''No valid header found in TCP data, discarding buffer'' st)
                   \<lparr>receiveBuffer := []\<rparr>)
      | Some headerIndex \<Rightarrow>
          let st1 = (if headerIndex > 0
                     then (logmsg Warn ''Discarding bytes before UC header'' st)
                            \<lparr>receiveBuffer := drop headerIndex (receiveBuffer st)\<rparr>
                     else st)
          in
            if length (receiveBuffer st1) < 6 then Break st1
            else if u16_at (receiveBuffer st1) 2 \<noteq> 1
            then Continue ((logmsg Warn ''Invalid version in header, discarding and searching for next header'' st1)
                             \<lparr>receiveBuffer := drop 2 (receiveBuffer st1)\<rparr>)
            else
              let psize = u16_at (receiveBuffer st1) 4;
                  totalSize = 6 + psize
              in
                if length (receiveBuffer st1) < totalSize then Break st1
                else
                  let packetData = take totalSize (receiveBuffer st1);
                      st2 = st1\<lparr>receiveBuffer := drop totalSize (receiveBuffer st1)\<rparr>
                  in (case dispatch ext st2 packetData of
                        Inr st3 \<Rightarrow> Continue st3
                      | Inl e \<Rightarrow>
                          Continue ((logmsg Error ''Error parsing TCP packet'' st2)
                                      \<lparr>receiveBuffer := drop 2 (receiveBuffer st2)\<rparr>)))"

subsection \<open>Frames and their delivery\<close>

text \<open>
  A frame as the decoder accepts it: the magic \<open>UC\<close>, the version 1 and the length of the
  payload, both little-endian 16-bit numbers, then the payload.
\<close>

definition frame :: "buffer \<Rightarrow> buffer" where
  "frame payload = [0x55, 0x43, 0x01, 0x00] @ u16le (length payload) @ payload"

text \<open>
  A payload is quiet when neither \<open>parsePacket\<close> nor the handler of its type raises on
  its frame: it holds the type and the address pair, and the body of a ZM or PV message
  holds the four bytes its handler reads.
\<close>

definition quiet :: "buffer \<Rightarrow> bool" where
  "quiet p \<longleftrightarrow> 6 \<le> length p \<and> length p \<le> 65535 \<and>
     (toString_ascii (take 2 p) = ''ZM'' \<or> toString_ascii (take 2 p) = ''PV'' \<longrightarrow> 10 \<le> length p)"

text \<open>The state after the handler of the frame of a payload has run; the state itself if it raises.\<close>

definition deliver :: "externals \<Rightarrow> state \<Rightarrow> buffer \<Rightarrow> state" where
  "deliver ext st p = (case dispatch ext st (frame p) of Inr st' \<Rightarrow> st' | Inl e \<Rightarrow> st)"

text \<open>The part of the state that mirrors the device.\<close>

definition store :: "state \<Rightarrow> (nat \<rightharpoonup> channelState) \<times> bool" where
  "store st = (channelStates st, mixerBypassState st)"

text \<open>
  A buffer that waits for more data: it is empty, or a proper prefix of the frame of the
  first payload still to come.
\<close>

definition waiting :: "buffer \<Rightarrow> buffer list \<Rightarrow> bool" where
  "waiting pa ps \<longleftrightarrow> pa = [] \<or> (\<exists>p r sfx. ps = p # r \<and> sfx \<noteq> [] \<and> pa @ sfx = frame p)"

subsection \<open>The handlers leave the receive buffer alone\<close>

lemma logmsg_fields [simp]:
  "channelStates (logmsg l m st) = channelStates st"
  "mixerBypassState (logmsg l m st) = mixerBypassState st"
  "receiveBuffer (logmsg l m st) = receiveBuffer st"
  "tcpWritable (logmsg l m st) = tcpWritable st"
  "tcpWritten (logmsg l m st) = tcpWritten st"
  "logged (logmsg l m st) = logged st @ [(l, m)]"
  by (simp_all add: logmsg_def)

lemma receiveBuffer_handlePVPacket:
  "handlePVPacket st pkt = Inr st' \<Longrightarrow> receiveBuffer st' = receiveBuffer st"
  by (auto simp: handlePVPacket_def Let_def split: sum.splits prod.splits if_splits option.splits)

lemma receiveBuffer_channel_entry:
  "channel_entry g st e = Inr st' \<Longrightarrow> receiveBuffer st' = receiveBuffer st"
  by (auto simp: channel_entry_def Let_def split: option.splits if_splits)

lemma receiveBuffer_channel_entries:
  "receiveBuffer (fst (channel_entries g es st)) = receiveBuffer st"
proof (induction es arbitrary: st)
  case Nil
  show ?case by simp
next
  case (Cons e es)
  show ?case
  proof (cases "channel_entry g st e")
    case (Inl err)
    then show ?thesis by simp
  next
    case (Inr st1)
    with Cons receiveBuffer_channel_entry [OF Inr] show ?thesis by simp
  qed
qed

lemma receiveBuffer_updateChannelStates:
  "receiveBuffer (fst (updateChannelStates g st j)) = receiveBuffer st"
  by (simp add: updateChannelStates_def receiveBuffer_channel_entries split: option.splits)

lemma receiveBuffer_updateGlobalStates:
  "receiveBuffer (updateGlobalStates g st j) = receiveBuffer st"
  by (simp add: updateGlobalStates_def Let_def split: option.splits jsvalue.splits)

lemma receiveBuffer_handleZMPacket:
  assumes "handleZMPacket ext st pkt = Inr st'"
  shows "receiveBuffer st' = receiveBuffer st"
proof -
  have *: "receiveBuffer s1 = receiveBuffer st"
    if "updateChannelStates (greater_than_0 (gt0 ext)) st j = (s1, r)" for j s1 r
    using receiveBuffer_updateChannelStates [of "greater_than_0 (gt0 ext)" st j] that by simp
  from assms show ?thesis
    by (auto simp: handleZMPacket_def Let_def receiveBuffer_updateGlobalStates
          split: if_splits option.splits prod.splits dest: *)
qed

lemma receiveBuffer_dispatch:
  "dispatch ext st pd = Inr st' \<Longrightarrow> receiveBuffer st' = receiveBuffer st"
  by (auto simp: dispatch_def split: sum.splits if_splits
        dest: receiveBuffer_handlePVPacket receiveBuffer_handleZMPacket)

lemma loop_body_shrinks:
  assumes "loop_body ext st = Continue st'"
  shows "length (receiveBuffer st') + 2 \<le> length (receiveBuffer st)"
  using assms
  by (auto simp: loop_body_def Let_def split: option.splits if_splits sum.splits
        dest!: receiveBuffer_dispatch)

subsection \<open>The loop of \<open>handleIncomingData\<close>\<close>

text \<open>
  \<open>while (this.receiveBuffer.length >= 6) { ... }\<close>: a recursion on the state, which ends
  because every iteration that continues leaves a shorter buffer.
\<close>

function process :: "externals \<Rightarrow> state \<Rightarrow> state" where
  "process ext st =
     (if 6 \<le> length (receiveBuffer st)
      then (case loop_body ext st of Break st1 \<Rightarrow> st1 | Continue st1 \<Rightarrow> process ext st1)
      else st)"
  by pat_completeness auto
termination
proof (relation "measure (\<lambda>(ext, st). length (receiveBuffer st))")
  show "wf (measure (\<lambda>(ext, st). length (receiveBuffer st)))" by simp
next
  fix ext st st1
  assume "6 \<le> length (receiveBuffer st)" and "loop_body ext st = Continue st1"
  then show "((ext, st1), (ext, st)) \<in> measure (\<lambda>(ext, st). length (receiveBuffer st))"
    using loop_body_shrinks [of ext st st1] by simp
qed

declare process.simps [simp del]

text \<open>The same loop with a bound on the number of iterations: \<open>None\<close> when the bound is reached.\<close>

fun process_bounded :: "nat \<Rightarrow> externals \<Rightarrow> state \<Rightarrow> state option" where
  "process_bounded 0 ext st = None"
| "process_bounded (Suc k) ext st =
     (if 6 \<le> length (receiveBuffer st)
      then (case loop_body ext st of
              Break st1 \<Rightarrow> Some st1
            | Continue st1 \<Rightarrow> process_bounded k ext st1)
      else Some st)"

definition handleIncomingData :: "externals \<Rightarrow> state \<Rightarrow> buffer \<Rightarrow> state" where
  "handleIncomingData ext st d =
     process ext
       ((logmsg Debug ''Received TCP data (ascii)'' (logmsg Debug ''Received TCP data (hex)'' st))
          \<lparr>receiveBuffer := receiveBuffer st @ d\<rparr>)"

section \<open>Termination of the frame-processing loop\<close>

lemma process_bounded_enough:
  "length (receiveBuffer st) < 2 * k \<Longrightarrow> process_bounded k ext st = Some (process ext st)"
proof (induction k arbitrary: st)
  case 0
  then show ?case by simp
next
  case (Suc k)
  show ?case
  proof (cases "6 \<le> length (receiveBuffer st)")
    case False
    then show ?thesis by (simp add: process.simps [of ext st])
  next
    case True
    show ?thesis
    proof (cases "loop_body ext st")
      case (Break st1)
      with True show ?thesis by (simp add: process.simps [of ext st])
    next
      case (Continue st1)
      from loop_body_shrinks [OF Continue] Suc.prems
      have "length (receiveBuffer st1) < 2 * k" by simp
      from Suc.IH [OF this] True Continue show ?thesis
        by (simp add: process.simps [of ext st])
    qed
  qed
qed

text \<open>
  C10. Every iteration of the loop of \<open>handleIncomingData\<close> either leaves the loop or
  continues with a receive buffer that is at least two bytes shorter, and the loop ends:
  run with a bound of one more than half the length of the buffer, it returns, with the
  state the loop computes.
\<close>

theorem loop_terminates:
  "((\<exists>st'. loop_body ext st = Break st') \<or>
    (\<exists>st'. loop_body ext st = Continue st' \<and>
       length (receiveBuffer st') + 2 \<le> length (receiveBuffer st)))
   \<and> process_bounded (Suc (length (receiveBuffer st) div 2)) ext st = Some (process ext st)"
proof
  show "(\<exists>st'. loop_body ext st = Break st') \<or>
    (\<exists>st'. loop_body ext st = Continue st' \<and>
       length (receiveBuffer st') + 2 \<le> length (receiveBuffer st))"
    by (cases "loop_body ext st") (auto dest: loop_body_shrinks)
next
  have "length (receiveBuffer st) < 2 * Suc (length (receiveBuffer st) div 2)" by simp
  then show "process_bounded (Suc (length (receiveBuffer st) div 2)) ext st = Some (process ext st)"
    by (rule process_bounded_enough)
qed

section \<open>Building and parsing packets\<close>

lemma length_u16le [simp]: "length (u16le n) = 2"
  by (simp add: u16le_def)

lemma length_u32le [simp]: "length (u32le n) = 4"
  by (simp add: u32le_def)

lemma length_writeFloatLE [simp]: "length (writeFloatLE v) = 4"
  by (simp add: writeFloatLE_def)

lemma length_Buffer_from [simp]: "length (Buffer_from s) = length s"
  by (simp add: Buffer_from_def)

lemma parsePacket_built_header:
  "parsePacket (build_header @ u16le n @ payload) = Inl InvalidHeader"
  by (simp add: parsePacket_def u16le_def build_header_def slice_def slice_index_def
        readUInt16LE_def Let_def)

lemma finish_packet_rejected:
  "finish_packet payload = Inr f \<Longrightarrow> parsePacket f = Inl InvalidHeader"
  by (auto simp: finish_packet_def writeUInt16LE_def parsePacket_built_header split: if_splits)

lemma length_subMsgStr: "length subMsgStr = 237"
  by (simp add: subMsgStr_def)

text \<open>
  C1. Building a message and parsing the frame does not give the message back: every
  builder starts the frame with the bytes 55 43 00 01, and \<open>parsePacket\<close> reads the two bytes
  after the magic as a little-endian number, which is 256 and not 1, so it raises
  \<open>Invalid header\<close> for the frame of every builder, whatever the port, the name and the
  value.
\<close>

theorem built_packets_rejected:
  "(\<exists>f. buildKAPacket = Inr f \<and> parsePacket f = Inl InvalidHeader) \<and>
   (\<exists>f. buildJMPacket = Inr f \<and> parsePacket f = Inl InvalidHeader) \<and>
   (udpPort \<le> 65535 \<longrightarrow> (\<exists>f. buildUMPacket udpPort = Inr f \<and> parsePacket f = Inl InvalidHeader)) \<and>
   (length name \<le> 65522 \<longrightarrow> (\<exists>f. buildPVPacket name v = Inr f \<and> parsePacket f = Inl InvalidHeader))"
proof (intro conjI impI)
  have "\<exists>f. buildKAPacket = Inr f"
    by (simp add: buildKAPacket_def finish_packet_def writeUInt16LE_def Buffer_from_def)
  then show "\<exists>f. buildKAPacket = Inr f \<and> parsePacket f = Inl InvalidHeader"
    unfolding buildKAPacket_def by (auto dest: finish_packet_rejected)
next
  have "\<exists>f. buildJMPacket = Inr f"
    by (simp add: buildJMPacket_def finish_packet_def writeUInt16LE_def Buffer_from_def
          u32le_def length_subMsgStr Let_def)
  then show "\<exists>f. buildJMPacket = Inr f \<and> parsePacket f = Inl InvalidHeader"
    unfolding buildJMPacket_def Let_def by (auto dest: finish_packet_rejected)
next
  assume "udpPort \<le> 65535"
  then have "\<exists>f. buildUMPacket udpPort = Inr f"
    by (simp add: buildUMPacket_def finish_packet_def writeUInt16LE_def Buffer_from_def)
  then show "\<exists>f. buildUMPacket udpPort = Inr f \<and> parsePacket f = Inl InvalidHeader"
    using \<open>udpPort \<le> 65535\<close> unfolding buildUMPacket_def writeUInt16LE_def
    by (auto dest: finish_packet_rejected)
next
  assume "length name \<le> 65522"
  then have "\<exists>f. buildPVPacket name v = Inr f"
    by (simp add: buildPVPacket_def finish_packet_def writeUInt16LE_def Buffer_from_def
          writeFloatLE_def Let_def)
  then show "\<exists>f. buildPVPacket name v = Inr f \<and> parsePacket f = Inl InvalidHeader"
    unfolding buildPVPacket_def Let_def by (auto dest: finish_packet_rejected)
qed

text \<open>The keepalive frame, byte by byte, and what \<open>parsePacket\<close> makes of it.\<close>

theorem built_packets_rejected_witness:
  "buildKAPacket = Inr [0x55, 0x43, 0x00, 0x01, 0x06, 0x00, 0x4B, 0x41, 0x68, 0x00, 0x66, 0x00] \<and>
   parsePacket [0x55, 0x43, 0x00, 0x01, 0x06, 0x00, 0x4B, 0x41, 0x68, 0x00, 0x66, 0x00] = Inl InvalidHeader"
proof -
  have ka: "buildKAPacket = Inr [0x55, 0x43, 0x00, 0x01, 0x06, 0x00, 0x4B, 0x41, 0x68, 0x00, 0x66, 0x00]"
    by (simp add: buildKAPacket_def finish_packet_def writeUInt16LE_def u16le_def
          build_header_def Buffer_from_def)
  from built_packets_rejected [of 0 "[]" 0] obtain f
    where f: "buildKAPacket = Inr f" and r: "parsePacket f = Inl InvalidHeader"
    by blast
  from f ka have "Inr f = (Inr [0x55, 0x43, 0x00, 0x01, 0x06, 0x00, 0x4B, 0x41, 0x68, 0x00, 0x66, 0x00] :: error + buffer)"
    by (rule trans [OF sym])
  then have "f = [0x55, 0x43, 0x00, 0x01, 0x06, 0x00, 0x4B, 0x41, 0x68, 0x00, 0x66, 0x00]"
    by simp
  with r have "parsePacket [0x55, 0x43, 0x00, 0x01, 0x06, 0x00, 0x4B, 0x41, 0x68, 0x00, 0x66, 0x00] = Inl InvalidHeader"
    by simp
  with ka show ?thesis by (rule conjI)
qed

section \<open>Decoding a PV body\<close>

lemma f32_of_bytes_writeFloatLE:
  "f32_of_bytes (ucast v) (ucast (drop_bit 8 v)) (ucast (drop_bit 16 v)) (ucast (drop_bit 24 v)) = v"
  unfolding f32_of_bytes_def
proof (rule bit_word_eqI)
  fix n assume "n < LENGTH(32)"
  then consider "n < 8" | "8 \<le> n" "n < 16" | "16 \<le> n" "n < 24" | "24 \<le> n" "n < 32"
    by force
  then show "bit (ucast (ucast v :: byte) OR push_bit 8 (ucast (ucast (drop_bit 8 v) :: byte))
      OR push_bit 16 (ucast (ucast (drop_bit 16 v) :: byte))
      OR push_bit 24 (ucast (ucast (drop_bit 24 v) :: byte)) :: float32) n = bit v n"
    by cases (auto simp: bit_simps)
qed

lemma slice_prefix:
  "slice (nm @ [b0, b1, b2, b3]) 0 (int (length (nm @ [b0, b1, b2, b3])) - 4) = nm"
  by (simp add: slice_def slice_index_def Let_def)

lemma readFloatLE_suffix:
  "readFloatLE (nm @ [b0, b1, b2, b3]) (int (length (nm @ [b0, b1, b2, b3])) - 4)
     = Inr (f32_of_bytes b0 b1 b2 b3)"
  by (simp add: readFloatLE_def nth_append)

lemma decodePV_short: "length d < 4 \<Longrightarrow> decodePV d = Inl RangeError"
  by (simp add: decodePV_def readFloatLE_def Let_def)

lemma char_of_unat_NUL: "char_of (unat (x :: byte)) = CHR 0x00 \<longleftrightarrow> x = 0"
proof -
  have "unat x < 256" using unsigned_less [of x, where ?'a = nat] by simp
  then have "take_bit 8 (unat x) = unat x" by (simp add: take_bit_eq_mod)
  then show ?thesis by (simp add: char_of_eq_iff unat_eq_0)
qed

lemma strip_NUL_bytes:
  "filter (\<lambda>c. c \<noteq> CHR 0x00) (map (\<lambda>x. char_of (unat x)) (nm :: buffer))
     = map (\<lambda>x. char_of (unat x)) (filter (\<lambda>x. x \<noteq> 0) nm)"
  by (induction nm) (simp_all add: char_of_unat_NUL)

lemma well_formed_ascii: "\<forall>x\<in>set nm. x \<le> 0x7F \<Longrightarrow> well_formed_utf8 nm"
  by (induction nm) simp_all

lemma decodePV_four:
  "decodePV (nm @ [c0, c1, c2, c3]) =
     Inr (if well_formed_utf8 nm
          then Some (map (\<lambda>x. char_of (unat x)) (filter (\<lambda>x. x \<noteq> 0) nm)) else None,
          f32_of_bytes c0 c1 c2 c3)"
  unfolding decodePV_def Let_def slice_prefix readFloatLE_suffix
  by (simp add: toString_utf8_def strip_NUL_bytes)

lemma decodePV_writeFloatLE:
  "decodePV (nm @ writeFloatLE v) =
     Inr (if well_formed_utf8 nm
          then Some (map (\<lambda>x. char_of (unat x)) (filter (\<lambda>x. x \<noteq> 0) nm)) else None, v)"
  using decodePV_four [of nm "ucast v" "ucast (drop_bit 8 v)" "ucast (drop_bit 16 v)" "ucast (drop_bit 24 v)"]
  by (simp add: writeFloatLE_def f32_of_bytes_writeFloatLE)

lemma or_push_bit_nat: "(x::nat) < 2 ^ k \<Longrightarrow> x OR push_bit k y = x + 2 ^ k * y"
proof -
  assume a: "x < 2 ^ k"
  have "x + push_bit k y = x OR push_bit k y"
  proof (rule disjunctive_add)
    fix n
    show "\<not> bit x n \<or> \<not> bit (push_bit k y) n"
    proof (cases "n < k")
      case True
      then show ?thesis by (simp add: bit_push_bit_iff)
    next
      case False
      then have "2 ^ k \<le> (2::nat) ^ n" by (simp add: power_increasing)
      with a have "x < 2 ^ n" by (rule order.strict_trans2)
      then have "\<not> bit x n" by (simp add: bit_iff_odd)
      then show ?thesis by simp
    qed
  qed
  then have "x OR push_bit k y = x + push_bit k y" by simp
  then show ?thesis by (simp add: push_bit_eq_mult mult.commute)
qed

lemma unat_f32_of_bytes:
  "unat (f32_of_bytes b0 b1 b2 b3) = unat b0 + 256 * unat b1 + 65536 * unat b2 + 16777216 * unat b3"
proof -
  have b: "unat b0 < 256" "unat b1 < 256" "unat b2 < 256" "unat b3 < 256"
    using unsigned_less [of b0, where ?'a = nat] unsigned_less [of b1, where ?'a = nat]
      unsigned_less [of b2, where ?'a = nat] unsigned_less [of b3, where ?'a = nat] by simp_all
  have u: "unat (ucast c :: float32) = unat c" for c :: byte
    using unsigned_less [of c, where ?'a = nat] by (simp add: unsigned_ucast_eq take_bit_nat_eq_self_iff)
  have p8: "unat (push_bit 8 (ucast b1 :: float32)) = 256 * unat b1"
  proof -
    have "unat (push_bit 8 (ucast b1 :: float32)) = take_bit 32 (push_bit 8 (unat b1))"
      by (simp only: unsigned_push_bit_eq u) simp
    also have "\<dots> = push_bit 8 (unat b1)"
      using b(2) by (simp add: take_bit_nat_eq_self_iff push_bit_eq_mult)
    finally show ?thesis by (simp add: push_bit_eq_mult)
  qed
  have p16: "unat (push_bit 16 (ucast b2 :: float32)) = 65536 * unat b2"
  proof -
    have "unat (push_bit 16 (ucast b2 :: float32)) = take_bit 32 (push_bit 16 (unat b2))"
      by (simp only: unsigned_push_bit_eq u) simp
    also have "\<dots> = push_bit 16 (unat b2)"
      using b(3) by (simp add: take_bit_nat_eq_self_iff push_bit_eq_mult)
    finally show ?thesis by (simp add: push_bit_eq_mult)
  qed
  have p24: "unat (push_bit 24 (ucast b3 :: float32)) = 16777216 * unat b3"
  proof -
    have "unat (push_bit 24 (ucast b3 :: float32)) = take_bit 32 (push_bit 24 (unat b3))"
      by (simp only: unsigned_push_bit_eq u) simp
    also have "\<dots> = push_bit 24 (unat b3)"
      using b(4) by (simp add: take_bit_nat_eq_self_iff push_bit_eq_mult)
    finally show ?thesis by (simp add: push_bit_eq_mult)
  qed
  have "unat (f32_of_bytes b0 b1 b2 b3) =
      ((unat b0 OR 256 * unat b1) OR 65536 * unat b2) OR 16777216 * unat b3"
    by (simp add: f32_of_bytes_def unsigned_or_eq u p8 p16 p24 or.assoc)
  also have "unat b0 OR 256 * unat b1 = unat b0 + 256 * unat b1"
    using or_push_bit_nat [of "unat b0" 8 "unat b1"] b(1) by (simp add: push_bit_eq_mult mult.commute)
  also have "(unat b0 + 256 * unat b1) OR 65536 * unat b2 = unat b0 + 256 * unat b1 + 65536 * unat b2"
    using or_push_bit_nat [of "unat b0 + 256 * unat b1" 16 "unat b2"] b(1,2)
    by (simp add: push_bit_eq_mult mult.commute)
  also have "(unat b0 + 256 * unat b1 + 65536 * unat b2) OR 16777216 * unat b3
      = unat b0 + 256 * unat b1 + 65536 * unat b2 + 16777216 * unat b3"
    using or_push_bit_nat [of "unat b0 + 256 * unat b1 + 65536 * unat b2" 24 "unat b3"] b(1,2,3)
    by (simp add: push_bit_eq_mult mult.commute)
  finally show ?thesis .
qed

text \<open>
  C7. Whatever bytes \<open>nm\<close> stand before the last four bytes of a PV body, the decoder
  takes exactly those four as the float, least significant byte first, and it takes the name
  from all of \<open>nm\<close>: when \<open>nm\<close> is well-formed UTF-8, as every sequence of ASCII bytes is,
  the name is the string of the bytes of \<open>nm\<close> that are not NUL, in their order. When \<open>nm\<close> is
  ill-formed, the name holds U+FFFD and is no parameter path. A value written by
  \<open>writeFloatLE\<close> is read back unchanged. Every body of at least four bytes has this form.
\<close>

theorem decodePV_last_four_bytes:
  "decodePV (nm @ [b0, b1, b2, b3]) =
     Inr (if well_formed_utf8 nm
          then Some (map (\<lambda>x. char_of (unat x)) (filter (\<lambda>x. x \<noteq> 0) nm)) else None,
          f32_of_bytes b0 b1 b2 b3)
   \<and> unat (f32_of_bytes b0 b1 b2 b3)
       = unat b0 + 256 * unat b1 + 65536 * unat b2 + 16777216 * unat b3
   \<and> decodePV (nm @ writeFloatLE v) =
     Inr (if well_formed_utf8 nm
          then Some (map (\<lambda>x. char_of (unat x)) (filter (\<lambda>x. x \<noteq> 0) nm)) else None, v)
   \<and> ((\<forall>x\<in>set nm. x \<le> 0x7F) \<longrightarrow> well_formed_utf8 nm)"
proof (intro conjI impI)
  show "decodePV (nm @ [b0, b1, b2, b3]) =
     Inr (if well_formed_utf8 nm
          then Some (map (\<lambda>x. char_of (unat x)) (filter (\<lambda>x. x \<noteq> 0) nm)) else None,
          f32_of_bytes b0 b1 b2 b3)"
    by (simp add: decodePV_def Let_def slice_def slice_index_def readFloatLE_def nth_append
          toString_utf8_def strip_NUL_bytes)
  then show "decodePV (nm @ writeFloatLE v) =
     Inr (if well_formed_utf8 nm
          then Some (map (\<lambda>x. char_of (unat x)) (filter (\<lambda>x. x \<noteq> 0) nm)) else None, v)"
    by (simp add: decodePV_def Let_def slice_def slice_index_def readFloatLE_def nth_append
          toString_utf8_def strip_NUL_bytes writeFloatLE_def f32_of_bytes_writeFloatLE)
  show "unat (f32_of_bytes b0 b1 b2 b3)
       = unat b0 + 256 * unat b1 + 65536 * unat b2 + 16777216 * unat b3"
    by (rule unat_f32_of_bytes)
  assume "\<forall>x\<in>set nm. x \<le> 0x7F"
  then show "well_formed_utf8 nm"
    by (induction nm) simp_all
qed

text \<open>
  A body whose name part is \<open>li\0ne/ch5/m\0ute\<close> and the three padding bytes, with the value 1.0;
  and a body whose name part C3 00 A9 is ill-formed, while C3 A9, without the NUL, is not.
\<close>

theorem decodePV_last_four_bytes_witness:
  "decodePV ([0x6C, 0x69, 0x00, 0x6E, 0x65, 0x2F, 0x63, 0x68, 0x35, 0x2F, 0x6D, 0x00, 0x75, 0x74, 0x65,
              0x00, 0x00, 0x00] @ [0x00, 0x00, 0x80, 0x3F])
     = Inr (Some ''line/ch5/mute'', 0x3F800000)
   \<and> decodePV ([0xC3, 0x00, 0xA9] @ [0x00, 0x00, 0x80, 0x3F]) = Inr (None, 0x3F800000)"
proof
  have "(\<forall>x\<in>set [0x6C, 0x69, 0x00, 0x6E, 0x65, 0x2F, 0x63, 0x68, 0x35, 0x2F, 0x6D, 0x00, 0x75, 0x74, 0x65,
              0x00, 0x00, 0x00 :: byte]. x \<le> 0x7F)"
    by simp
  with decodePV_last_four_bytes [of "[0x6C, 0x69, 0x00, 0x6E, 0x65, 0x2F, 0x63, 0x68, 0x35, 0x2F, 0x6D, 0x00, 0x75, 0x74, 0x65,
              0x00, 0x00, 0x00]" "0x00" "0x00" "0x80" "0x3F" 0]
  show "decodePV ([0x6C, 0x69, 0x00, 0x6E, 0x65, 0x2F, 0x63, 0x68, 0x35, 0x2F, 0x6D, 0x00, 0x75, 0x74, 0x65,
              0x00, 0x00, 0x00] @ [0x00, 0x00, 0x80, 0x3F])
     = Inr (Some ''line/ch5/mute'', 0x3F800000)"
    by (simp add: f32_of_bytes_def char_of_def bit_Suc_0_iff)
next
  from decodePV_last_four_bytes [of "[0xC3, 0x00, 0xA9]" "0x00" "0x00" "0x80" "0x3F" 0]
  show "decodePV ([0xC3, 0x00, 0xA9] @ [0x00, 0x00, 0x80, 0x3F]) = Inr (None, 0x3F800000)"
    by (simp add: f32_of_bytes_def continuation_def)
qed

section \<open>Parameter paths: printing and matching\<close>

lemma of_char_digit_char: "d < 10 \<Longrightarrow> (of_char (digit_char d) :: nat) = 48 + d"
  by (simp add: digit_char_def)

lemma is_digit_digit_char: "d < 10 \<Longrightarrow> is_digit (digit_char d)"
  by (simp add: is_digit_def of_char_digit_char)

lemma digits_show_nat: "c \<in> set (show_nat n) \<Longrightarrow> is_digit c"
proof (induction n arbitrary: c rule: show_nat.induct)
  case (1 n)
  show ?case
  proof (cases "n < 10")
    case True
    with "1.prems" show ?thesis
      by (simp add: show_nat.simps [of n] is_digit_digit_char)
  next
    case False
    with "1.prems" "1.IH" show ?thesis
      by (auto simp: show_nat.simps [of n] is_digit_digit_char)
  qed
qed

lemma show_nat_not_Nil: "show_nat n \<noteq> []"
  by (simp add: show_nat.simps [of n])

lemma parseInt_snoc: "parseInt (ds @ [c]) = 10 * parseInt ds + (of_char c - 48)"
  by (simp add: parseInt_def)

lemma parseInt_show_nat: "parseInt (show_nat n) = n"
proof (induction n rule: show_nat.induct)
  case (1 n)
  show ?case
  proof (cases "n < 10")
    case True
    then show ?thesis
      by (simp add: show_nat.simps [of n] parseInt_def of_char_digit_char)
  next
    case False
    with "1.IH" show ?thesis
      by (simp add: show_nat.simps [of n] parseInt_snoc of_char_digit_char)
  qed
qed

lemma length_show_nat: "n < 10 ^ k \<Longrightarrow> 0 < k \<Longrightarrow> length (show_nat n) \<le> k"
proof (induction k arbitrary: n)
  case 0
  then show ?case by simp
next
  case (Suc k)
  show ?case
  proof (cases "n < 10")
    case True
    then show ?thesis by (simp add: show_nat.simps [of n])
  next
    case False
    with Suc.prems have k: "0 < k" by (cases k) auto
    from Suc.prems have "n div 10 < 10 ^ k" by (simp add: less_mult_imp_div_less mult.commute)
    from Suc.IH [OF this k] False show ?thesis
      by (simp add: show_nat.simps [of n])
  qed
qed

lemma not_digit_slash: "\<not> is_digit CHR ''/''"
  by (simp add: is_digit_def)

lemma match_prefix_digits_show_nat:
  assumes "rest = [] \<or> \<not> is_digit (hd rest)"
  shows "match_prefix_digits pre (pre @ show_nat n @ rest) = Some (show_nat n, rest)"
proof -
  have all: "\<forall>c \<in> set (show_nat n). is_digit c"
    by (simp add: digits_show_nat)
  from assms have r: "takeWhile is_digit rest = []" "dropWhile is_digit rest = rest"
    by (cases rest; simp)+
  from all r have "takeWhile is_digit (show_nat n @ rest) = show_nat n"
    and "dropWhile is_digit (show_nat n @ rest) = rest"
    by (simp_all add: takeWhile_append2 dropWhile_append2)
  then show ?thesis
    by (simp add: match_prefix_digits_def show_nat_not_Nil)
qed

lemma attr_of_name_attr_name: "attr_of_name (attr_name atr) = Some atr"
  by (cases atr) (simp_all add: attr_of_name_def)

lemma match_line_channel_path:
  "match_line (channel_path n (attr_name atr)) = Some (n, atr)"
  using match_prefix_digits_show_nat [of "CHR ''/'' # attr_name atr" "''line/ch''" n]
  by (simp add: match_line_def channel_path_def not_digit_slash parseInt_show_nat
        attr_of_name_attr_name)

lemma match_ch_show_nat: "match_ch (''ch'' @ show_nat n) = Some n"
  using match_prefix_digits_show_nat [of "[]" "''ch''" n]
  by (simp add: match_ch_def parseInt_show_nat)

lemma char_of_unat_of_char: "char_of (unat (of_char c :: byte)) = c"
proof -
  have "unat (of_char c :: byte) = unat (of_nat (of_char c) :: byte)"
    by (simp only: of_nat_of_char)
  also have "\<dots> = of_char c mod 256"
    by (simp add: unat_of_nat)
  finally show ?thesis by simp
qed

lemma chars_of_Buffer_from: "map (\<lambda>x. char_of (unat x)) (Buffer_from s) = s"
  by (simp add: Buffer_from_def char_of_unat_of_char comp_def)

lemma toString_utf8_Buffer_from:
  "\<forall>x\<in>set (Buffer_from s). x \<le> 0x7F \<Longrightarrow> toString_utf8 (Buffer_from s) = Some s"
  by (simp add: toString_utf8_def well_formed_ascii chars_of_Buffer_from)

lemma Buffer_from_append: "Buffer_from (s @ t) = Buffer_from s @ Buffer_from t"
  by (simp add: Buffer_from_def)

lemma Buffer_from_Cons: "Buffer_from (c # s) = of_char c # Buffer_from s"
  by (simp add: Buffer_from_def)

lemma Buffer_from_Nil: "Buffer_from [] = []"
  by (simp add: Buffer_from_def)

lemma ascii_digit:
  assumes "is_digit c"
  shows "(of_char c :: byte) \<le> 0x7F"
proof -
  from assms have "(of_char c :: nat) \<le> 57" by (simp add: is_digit_def)
  moreover have "unat (of_char c :: byte) = (of_char c :: nat)"
    using of_nat_of_char [of c, where ?'a = byte] unat_of_nat [of "of_char c", where ?'a = 8]
    by simp
  ultimately show ?thesis by (simp add: word_le_nat_alt)
qed

lemma ascii_show_nat: "\<forall>x\<in>set (Buffer_from (show_nat n)). x \<le> 0x7F"
  by (auto simp: Buffer_from_def intro: ascii_digit digits_show_nat)

lemma ascii_attr_name: "\<forall>x\<in>set (Buffer_from (attr_name atr)). x \<le> 0x7F"
  by (cases atr) (simp_all add: Buffer_from_def)

lemma ascii_channel_path: "\<forall>x\<in>set (Buffer_from (channel_path n (attr_name atr))). x \<le> 0x7F"
proof -
  have "\<forall>x\<in>set (Buffer_from ''line/ch''). x \<le> 0x7F" "\<forall>x\<in>set (Buffer_from ''/''). x \<le> 0x7F"
    by (simp_all add: Buffer_from_def)
  with ascii_show_nat [of n] ascii_attr_name [of atr] show ?thesis
    unfolding channel_path_def Buffer_from_append by auto
qed

lemma no_NUL_show_nat: "CHR 0x00 \<notin> set (show_nat n)"
  using digits_show_nat [of "CHR 0x00" n] by (auto simp: is_digit_def)

lemma no_NUL_channel_path:
  "filter (\<lambda>c. c \<noteq> CHR 0x00) (channel_path n (attr_name atr)) = channel_path n (attr_name atr)"
proof -
  have "CHR 0x00 \<notin> set (attr_name atr)" by (cases atr) simp_all
  then have "CHR 0x00 \<notin> set (channel_path n (attr_name atr))"
    by (simp add: channel_path_def no_NUL_show_nat)
  then show ?thesis by (auto simp: filter_id_conv)
qed

lemma length_channel_path:
  "n < 10 ^ 21 \<Longrightarrow> length (channel_path n (attr_name atr)) \<le> 33"
  using length_show_nat [of n 21] by (cases atr) (simp_all add: channel_path_def)

lemma decodePV_body:
  assumes "\<forall>x\<in>set (Buffer_from name). x \<le> 0x7F"
  shows "decodePV (Buffer_from name @ [0x00, 0x00, 0x00] @ writeFloatLE v)
     = Inr (Some (filter (\<lambda>c. c \<noteq> CHR 0x00) name), v)"
proof -
  let ?nm = "Buffer_from name @ [0x00, 0x00, 0x00]"
  from assms have "\<forall>x\<in>set ?nm. x \<le> 0x7F" by simp
  then have w: "well_formed_utf8 ?nm" by (rule well_formed_ascii)
  have "map (\<lambda>x. char_of (unat x)) (filter (\<lambda>x. x \<noteq> 0) ?nm)
      = filter (\<lambda>c. c \<noteq> CHR 0x00) (map (\<lambda>x. char_of (unat x)) ?nm)"
    by (simp only: strip_NUL_bytes)
  also have "map (\<lambda>x. char_of (unat x)) ?nm = name @ [CHR 0x00, CHR 0x00, CHR 0x00]"
    using chars_of_Buffer_from [of name] by (simp add: char_of_def)
  finally have "map (\<lambda>x. char_of (unat x)) (filter (\<lambda>x. x \<noteq> 0) ?nm)
      = filter (\<lambda>c. c \<noteq> CHR 0x00) name"
    by simp
  with w decodePV_writeFloatLE [of ?nm v] show ?thesis by simp
qed

section \<open>Toggles on an unknown state\<close>

lemma buildPVPacket_Inr:
  assumes "length name \<le> 65522"
  shows "\<exists>p. buildPVPacket name v = Inr p
           \<and> drop 12 p = Buffer_from name @ [0x00, 0x00, 0x00] @ writeFloatLE v"
  using assms
  by (simp add: buildPVPacket_def finish_packet_def writeUInt16LE_def Let_def build_header_def)

lemma buildPVPacket_frame:
  assumes "length name \<le> 65522"
  shows "buildPVPacket name v =
     Inr ([0x55, 0x43, 0x00, 0x01] @ u16le (13 + length name)
          @ [0x50, 0x56, 0x68, 0x00, 0x66, 0x00]
          @ Buffer_from name @ [0x00, 0x00, 0x00] @ writeFloatLE v)"
proof -
  have "Buffer_from ''PV'' @ u16le 0x68 @ u16le 0x66 = [0x50, 0x56, 0x68, 0x00, 0x66, 0x00]"
    by (simp add: Buffer_from_def u16le_def)
  with assms show ?thesis
    by (simp add: buildPVPacket_def finish_packet_def writeUInt16LE_def Let_def build_header_def
          add.commute)
qed

lemma setChannel_Inr:
  assumes "n < 10 ^ 21"
  shows "\<exists>p. buildPVPacket (channel_path n (attr_name atr)) (if v then f32_one else f32_zero) = Inr p
           \<and> decodePV (drop 12 p)
               = Inr (Some (channel_path n (attr_name atr)), if v then f32_one else f32_zero)
           \<and> setChannel (attr_name atr) st n v = Inr (sendPacket st p)"
proof -
  from assms have "length (channel_path n (attr_name atr)) \<le> 65522"
    using length_channel_path [of n atr] by simp
  from buildPVPacket_Inr [OF this, of "if v then f32_one else f32_zero"] obtain p
    where p: "buildPVPacket (channel_path n (attr_name atr)) (if v then f32_one else f32_zero) = Inr p"
      and d: "drop 12 p = Buffer_from (channel_path n (attr_name atr)) @ [0x00, 0x00, 0x00]
                @ writeFloatLE (if v then f32_one else f32_zero)"
    by blast
  from d have "decodePV (drop 12 p)
      = Inr (Some (channel_path n (attr_name atr)), if v then f32_one else f32_zero)"
    by (simp only: decodePV_body [OF ascii_channel_path] no_NUL_channel_path)
  with p show ?thesis
    by (simp add: setChannel_def)
qed

lemma sendPacket_fields [simp]:
  "channelStates (sendPacket st p) = channelStates st"
  "mixerBypassState (sendPacket st p) = mixerBypassState st"
  "receiveBuffer (sendPacket st p) = receiveBuffer st"
  "tcpWritable (sendPacket st p) = tcpWritable st"
  "tcpWritten (sendPacket st p) = (if tcpWritable st then tcpWritten st @ [p] else tcpWritten st)"
  by (simp_all add: sendPacket_def)

lemma float_gt_zero_consts: "float_gt_zero f32_one" "\<not> float_gt_zero f32_zero"
  by (simp_all add: float_gt_zero_def f32_one_def f32_zero_def)

lemma safe_integer_prints: "n < 2 ^ 53 \<Longrightarrow> n < (10::nat) ^ 21"
  by (erule less_trans) simp

lemma channel_frame:
  assumes "n < 10 ^ 21"
    and "path = channel_path n (attr_name atr)"
    and "f = [0x55, 0x43, 0x00, 0x01] @ u16le (13 + length path)
              @ [0x50, 0x56, 0x68, 0x00, 0x66, 0x00]
              @ Buffer_from path @ [0x00, 0x00, 0x00] @ writeFloatLE v"
  shows "buildPVPacket path v = Inr f"
    and "decodePV (drop 12 f) = Inr (Some path, v)"
    and "match_line path = Some (n, atr)"
proof -
  from assms(1,2) have "length path \<le> 65522"
    using length_channel_path [of n atr] by simp
  then show "buildPVPacket path v = Inr f"
    unfolding assms(3) by (rule buildPVPacket_frame)
  have "drop 12 f = Buffer_from path @ [0x00, 0x00, 0x00] @ writeFloatLE v"
    by (simp add: assms(3))
  then show "decodePV (drop 12 f) = Inr (Some path, v)"
    unfolding assms(2) by (simp only: decodePV_body [OF ascii_channel_path] no_NUL_channel_path)
  show "match_line path = Some (n, atr)"
    unfolding assms(2) by (rule match_line_channel_path)
qed

text \<open>
  C3. Let \<open>N\<close> be a channel number, \<open>mute_path\<close> the name \<open>line/ch<N>/mute\<close> with \<open>N\<close> in
  decimal digits, and \<open>mute_frame\<close> the frame with the header the builders write, the length
  of the payload, the type \<open>PV\<close>, the address pair, the name, three NUL bytes and the float
  1.0. The decoder of PV bodies reads the name and the value 1.0 back from the body of the
  frame, the pattern of parameter paths reads the name as mute of channel \<open>N\<close>, and 1.0 is
  above zero, that is true. On a channel whose mute state is unknown, \<open>toggleChannelMute\<close>
  hands exactly this frame to the TCP client, when that is writable, and records
  mute = true. On a channel whose 48v state is unknown, \<open>toggleChannel48V\<close> does the same
  with \<open>line/ch<N>/48v\<close>, the float 0.0 (false) and 48v = false.
\<close>

theorem toggle_unknown_defaults:
  assumes "n < 2 ^ 53"
    and "mute_path = ''line/ch'' @ show_nat n @ ''/mute''"
    and "mute_frame = [0x55, 0x43, 0x00, 0x01] @ u16le (13 + length mute_path)
                      @ [0x50, 0x56, 0x68, 0x00, 0x66, 0x00]
                      @ Buffer_from mute_path @ [0x00, 0x00, 0x00] @ writeFloatLE f32_one"
    and "v48_path = ''line/ch'' @ show_nat n @ ''/48v''"
    and "v48_frame = [0x55, 0x43, 0x00, 0x01] @ u16le (13 + length v48_path)
                      @ [0x50, 0x56, 0x68, 0x00, 0x66, 0x00]
                      @ Buffer_from v48_path @ [0x00, 0x00, 0x00] @ writeFloatLE f32_zero"
  shows "buildPVPacket mute_path f32_one = Inr mute_frame
       \<and> decodePV (drop 12 mute_frame) = Inr (Some mute_path, f32_one)
       \<and> match_line mute_path = Some (n, Mute)
       \<and> float_gt_zero f32_one
       \<and> (readAttr st n Mute = None \<longrightarrow>
            (\<exists>st'. toggleChannelMute st n = Inr st'
               \<and> tcpWritten st' = (if tcpWritable st then tcpWritten st @ [mute_frame] else tcpWritten st)
               \<and> readAttr st' n Mute = Some True))
       \<and> buildPVPacket v48_path f32_zero = Inr v48_frame
       \<and> decodePV (drop 12 v48_frame) = Inr (Some v48_path, f32_zero)
       \<and> match_line v48_path = Some (n, V48)
       \<and> \<not> float_gt_zero f32_zero
       \<and> (readAttr st n V48 = None \<longrightarrow>
            (\<exists>st'. toggleChannel48V st n = Inr st'
               \<and> tcpWritten st' = (if tcpWritable st then tcpWritten st @ [v48_frame] else tcpWritten st)
               \<and> readAttr st' n V48 = Some False))"
proof -
  from assms(1) have n: "n < 10 ^ 21" by (rule safe_integer_prints)
  have mp: "mute_path = channel_path n (attr_name Mute)"
    by (simp add: assms(2) channel_path_def)
  have vp: "v48_path = channel_path n (attr_name V48)"
    by (simp add: assms(4) channel_path_def)
  note m = channel_frame [OF n mp assms(3)]
  note v = channel_frame [OF n vp assms(5)]
  from m(1) have sm: "setChannel ''mute'' st n True = Inr (sendPacket st mute_frame)"
    by (simp add: setChannel_def mp)
  from v(1) have sv: "setChannel ''48v'' st n False = Inr (sendPacket st v48_frame)"
    by (simp add: setChannel_def vp)
  have tm: "\<exists>st'. toggleChannelMute st n = Inr st'
      \<and> tcpWritten st' = (if tcpWritable st then tcpWritten st @ [mute_frame] else tcpWritten st)
      \<and> readAttr st' n Mute = Some True" if "readAttr st n Mute = None"
    using that sm by (simp add: toggleChannelMute_def setChannelMute_def readAttr_def)
  have tv: "\<exists>st'. toggleChannel48V st n = Inr st'
      \<and> tcpWritten st' = (if tcpWritable st then tcpWritten st @ [v48_frame] else tcpWritten st)
      \<and> readAttr st' n V48 = Some False" if "readAttr st n V48 = None"
    using that sv
    by (simp add: toggleChannel48V_def setChannel48V_def readAttr_def spread_with_def Let_def)
  from m v tm tv float_gt_zero_consts show ?thesis
    by blast
qed

lemma show_nat_digit: "n < 10 \<Longrightarrow> show_nat n = [digit_char n]"
  by (simp add: show_nat.simps [of n])

lemma byte_of_digit_char: "d < 10 \<Longrightarrow> (of_char (digit_char d) :: byte) = of_nat (48 + d)"
  using of_nat_of_char [of "digit_char d", where ?'a = byte] by (simp add: of_char_digit_char)

lemma Buffer_from_show_nat_12: "Buffer_from (show_nat 12) = [0x31, 0x32]"
proof -
  have "show_nat 12 = show_nat 1 @ [digit_char 2]"
    by (subst show_nat.simps) simp
  then show ?thesis
    by (simp add: show_nat_digit Buffer_from_def byte_of_digit_char)
qed

text \<open>Channel 12 on a fresh instance with a writable TCP client: the frames written, byte by byte.\<close>

theorem toggle_unknown_defaults_witness:
  "(\<exists>st'. toggleChannelMute (constructor\<lparr>tcpWritable := True\<rparr>) 12 = Inr st'
      \<and> tcpWritten st' =
          [[0x55, 0x43, 0x00, 0x01, 0x1B, 0x00, 0x50, 0x56, 0x68, 0x00, 0x66, 0x00,
            0x6C, 0x69, 0x6E, 0x65, 0x2F, 0x63, 0x68, 0x31, 0x32, 0x2F, 0x6D, 0x75, 0x74, 0x65,
            0x00, 0x00, 0x00, 0x00, 0x00, 0x80, 0x3F]]
      \<and> readAttr st' 12 Mute = Some True)
   \<and> (\<exists>st'. toggleChannel48V (constructor\<lparr>tcpWritable := True\<rparr>) 12 = Inr st'
      \<and> tcpWritten st' =
          [[0x55, 0x43, 0x00, 0x01, 0x1A, 0x00, 0x50, 0x56, 0x68, 0x00, 0x66, 0x00,
            0x6C, 0x69, 0x6E, 0x65, 0x2F, 0x63, 0x68, 0x31, 0x32, 0x2F, 0x34, 0x38, 0x76,
            0x00, 0x00, 0x00, 0x00, 0x00, 0x00, 0x00]]
      \<and> readAttr st' 12 V48 = Some False)"
proof -
  let ?st = "constructor\<lparr>tcpWritable := True\<rparr>"
  let ?mp = "''line/ch'' @ show_nat 12 @ ''/mute''"
  let ?vp = "''line/ch'' @ show_nat 12 @ ''/48v''"
  have n: "(12::nat) < 2 ^ 53" by simp
  have u: "readAttr ?st 12 Mute = None" "readAttr ?st 12 V48 = None"
    by (simp_all add: readAttr_def constructor_def)
  have w: "tcpWritable ?st" "tcpWritten ?st = []"
    by (simp_all add: constructor_def)
  have l: "length (show_nat 12) = 2"
    using arg_cong [OF Buffer_from_show_nat_12, of length] by simp
  have m: "[0x55, 0x43, 0x00, 0x01] @ u16le (13 + length ?mp)
             @ [0x50, 0x56, 0x68, 0x00, 0x66, 0x00]
             @ Buffer_from ?mp @ [0x00, 0x00, 0x00] @ writeFloatLE f32_one
      = [0x55, 0x43, 0x00, 0x01, 0x1B, 0x00, 0x50, 0x56, 0x68, 0x00, 0x66, 0x00,
            0x6C, 0x69, 0x6E, 0x65, 0x2F, 0x63, 0x68, 0x31, 0x32, 0x2F, 0x6D, 0x75, 0x74, 0x65,
            0x00, 0x00, 0x00, 0x00, 0x00, 0x80, 0x3F]"
    by (simp add: Buffer_from_append Buffer_from_Cons Buffer_from_Nil Buffer_from_show_nat_12 l
          u16le_def writeFloatLE_def f32_one_def)
  have v: "[0x55, 0x43, 0x00, 0x01] @ u16le (13 + length ?vp)
             @ [0x50, 0x56, 0x68, 0x00, 0x66, 0x00]
             @ Buffer_from ?vp @ [0x00, 0x00, 0x00] @ writeFloatLE f32_zero
      = [0x55, 0x43, 0x00, 0x01, 0x1A, 0x00, 0x50, 0x56, 0x68, 0x00, 0x66, 0x00,
            0x6C, 0x69, 0x6E, 0x65, 0x2F, 0x63, 0x68, 0x31, 0x32, 0x2F, 0x34, 0x38, 0x76,
            0x00, 0x00, 0x00, 0x00, 0x00, 0x00, 0x00]"
    by (simp add: Buffer_from_append Buffer_from_Cons Buffer_from_Nil Buffer_from_show_nat_12 l
          u16le_def writeFloatLE_def f32_zero_def)
  from toggle_unknown_defaults [OF n refl refl refl refl, of ?st] u obtain st' st''
    where t: "toggleChannelMute ?st 12 = Inr st'"
        "tcpWritten st' = (if tcpWritable ?st then tcpWritten ?st @
           [[0x55, 0x43, 0x00, 0x01] @ u16le (13 + length ?mp)
             @ [0x50, 0x56, 0x68, 0x00, 0x66, 0x00]
             @ Buffer_from ?mp @ [0x00, 0x00, 0x00] @ writeFloatLE f32_one] else tcpWritten ?st)"
        "readAttr st' 12 Mute = Some True"
      and t': "toggleChannel48V ?st 12 = Inr st''"
        "tcpWritten st'' = (if tcpWritable ?st then tcpWritten ?st @
           [[0x55, 0x43, 0x00, 0x01] @ u16le (13 + length ?vp)
             @ [0x50, 0x56, 0x68, 0x00, 0x66, 0x00]
             @ Buffer_from ?vp @ [0x00, 0x00, 0x00] @ writeFloatLE f32_zero] else tcpWritten ?st)"
        "readAttr st'' 12 V48 = Some False"
    by blast
  from t(2) w have "tcpWritten st' =
          [[0x55, 0x43, 0x00, 0x01, 0x1B, 0x00, 0x50, 0x56, 0x68, 0x00, 0x66, 0x00,
            0x6C, 0x69, 0x6E, 0x65, 0x2F, 0x63, 0x68, 0x31, 0x32, 0x2F, 0x6D, 0x75, 0x74, 0x65,
            0x00, 0x00, 0x00, 0x00, 0x00, 0x80, 0x3F]]"
    by (simp only: m if_True append_Nil)
  moreover from t'(2) w have "tcpWritten st'' =
          [[0x55, 0x43, 0x00, 0x01, 0x1A, 0x00, 0x50, 0x56, 0x68, 0x00, 0x66, 0x00,
            0x6C, 0x69, 0x6E, 0x65, 0x2F, 0x63, 0x68, 0x31, 0x32, 0x2F, 0x34, 0x38, 0x76,
            0x00, 0x00, 0x00, 0x00, 0x00, 0x00, 0x00]]"
    by (simp only: v if_True append_Nil)
  ultimately show ?thesis
    using t(1,3) t'(1,3) by blast
qed

section \<open>Replacing and merging toggles\<close>

lemma setChannel_sendPacket:
  assumes "n < 10 ^ 21"
  shows "\<exists>p. setChannel (attr_name atr) st n v = Inr (sendPacket st p)"
  using setChannel_Inr [OF assms, of atr v st] by blast

text \<open>
  C9. When a channel has a record with no mute state, \<open>toggleChannelMute\<close> replaces the
  record by \<open>{ mute: true }\<close>: every other attribute of the channel reads as unknown
  afterwards. In the same situation for their own attribute, \<open>toggleChannelSolo\<close>,
  \<open>toggleChannel48V\<close>, \<open>toggleChannelHPF\<close> and \<open>toggleChannelPad\<close> add the default to the
  record and every other attribute reads as before.
\<close>

theorem unknown_toggle_replaces_or_merges:
  assumes "channelStates st n = Some cs" and "n < 10 ^ 21"
  shows "(cs Mute = None \<longrightarrow>
           (\<exists>st'. toggleChannelMute st n = Inr st' \<and> channelStates st' n = Some [Mute \<mapsto> True]
              \<and> (\<forall>atr. atr \<noteq> Mute \<longrightarrow> readAttr st' n atr = None)))
       \<and> (cs Solo = None \<longrightarrow>
           (\<exists>st'. toggleChannelSolo st n = Inr st' \<and> channelStates st' n = Some (cs(Solo \<mapsto> True))
              \<and> (\<forall>atr. atr \<noteq> Solo \<longrightarrow> readAttr st' n atr = cs atr)))
       \<and> (cs V48 = None \<longrightarrow>
           (\<exists>st'. toggleChannel48V st n = Inr st' \<and> channelStates st' n = Some (cs(V48 \<mapsto> False))
              \<and> (\<forall>atr. atr \<noteq> V48 \<longrightarrow> readAttr st' n atr = cs atr)))
       \<and> (cs Hpf = None \<longrightarrow>
           (\<exists>st'. toggleChannelHPF st n = Inr st' \<and> channelStates st' n = Some (cs(Hpf \<mapsto> False))
              \<and> (\<forall>atr. atr \<noteq> Hpf \<longrightarrow> readAttr st' n atr = cs atr)))
       \<and> (cs Pad = None \<longrightarrow>
           (\<exists>st'. toggleChannelPad st n = Inr st' \<and> channelStates st' n = Some (cs(Pad \<mapsto> False))
              \<and> (\<forall>atr. atr \<noteq> Pad \<longrightarrow> readAttr st' n atr = cs atr)))"
proof (intro conjI impI)
  assume "cs Mute = None"
  with assms(1) setChannel_sendPacket [OF assms(2), of Mute st True]
  show "\<exists>st'. toggleChannelMute st n = Inr st' \<and> channelStates st' n = Some [Mute \<mapsto> True]
              \<and> (\<forall>atr. atr \<noteq> Mute \<longrightarrow> readAttr st' n atr = None)"
    by (auto simp: toggleChannelMute_def setChannelMute_def readAttr_def)
next
  assume "cs Solo = None"
  with assms(1) setChannel_sendPacket [OF assms(2), of Solo st True]
  show "\<exists>st'. toggleChannelSolo st n = Inr st' \<and> channelStates st' n = Some (cs(Solo \<mapsto> True))
              \<and> (\<forall>atr. atr \<noteq> Solo \<longrightarrow> readAttr st' n atr = cs atr)"
    by (auto simp: toggleChannelSolo_def setChannelSolo_def readAttr_def spread_with_def Let_def)
next
  assume "cs V48 = None"
  with assms(1) setChannel_sendPacket [OF assms(2), of V48 st False]
  show "\<exists>st'. toggleChannel48V st n = Inr st' \<and> channelStates st' n = Some (cs(V48 \<mapsto> False))
              \<and> (\<forall>atr. atr \<noteq> V48 \<longrightarrow> readAttr st' n atr = cs atr)"
    by (auto simp: toggleChannel48V_def setChannel48V_def readAttr_def spread_with_def Let_def)
next
  assume "cs Hpf = None"
  with assms(1) setChannel_sendPacket [OF assms(2), of Hpf st False]
  show "\<exists>st'. toggleChannelHPF st n = Inr st' \<and> channelStates st' n = Some (cs(Hpf \<mapsto> False))
              \<and> (\<forall>atr. atr \<noteq> Hpf \<longrightarrow> readAttr st' n atr = cs atr)"
    by (auto simp: toggleChannelHPF_def setChannelHPF_def readAttr_def spread_with_def Let_def)
next
  assume "cs Pad = None"
  with assms(1) setChannel_sendPacket [OF assms(2), of Pad st False]
  show "\<exists>st'. toggleChannelPad st n = Inr st' \<and> channelStates st' n = Some (cs(Pad \<mapsto> False))
              \<and> (\<forall>atr. atr \<noteq> Pad \<longrightarrow> readAttr st' n atr = cs atr)"
    by (auto simp: toggleChannelPad_def setChannelPad_def readAttr_def spread_with_def Let_def)
qed

text \<open>Channel 5 with the record \<open>{ solo: true }\<close>: the mute toggle loses solo, the 48V toggle keeps it.\<close>

theorem unknown_toggle_replaces_or_merges_witness:
  "(\<exists>st'. toggleChannelMute (constructor\<lparr>channelStates := [5 \<mapsto> [Solo \<mapsto> True]]\<rparr>) 5 = Inr st'
      \<and> readAttr st' 5 Mute = Some True \<and> readAttr st' 5 Solo = None)
   \<and> (\<exists>st'. toggleChannel48V (constructor\<lparr>channelStates := [5 \<mapsto> [Solo \<mapsto> True]]\<rparr>) 5 = Inr st'
      \<and> readAttr st' 5 V48 = Some False \<and> readAttr st' 5 Solo = Some True)"
proof -
  let ?st = "constructor\<lparr>channelStates := [5 \<mapsto> [Solo \<mapsto> True]]\<rparr>"
  have c: "channelStates ?st 5 = Some [Solo \<mapsto> True]" by simp
  have n: "(5::nat) < 10 ^ 21" by simp
  from unknown_toggle_replaces_or_merges [OF c n] obtain st' st''
    where "toggleChannelMute ?st 5 = Inr st'" "channelStates st' 5 = Some [Mute \<mapsto> True]"
      and "toggleChannel48V ?st 5 = Inr st''"
          "channelStates st'' 5 = Some ([Solo \<mapsto> True](V48 \<mapsto> False))"
    by auto
  then show ?thesis
    by (simp add: readAttr_def)
qed

section \<open>Reading the state store\<close>

lemma channel_path_not_global: "channel_path n an \<noteq> ''global/mixerBypass''"
  by (simp add: channel_path_def)

lemma decodePV_body_Cons:
  assumes "\<forall>x\<in>set (Buffer_from name). x \<le> 0x7F"
  shows "decodePV (Buffer_from name @ 0 # 0 # 0 # writeFloatLE v)
     = Inr (Some (filter (\<lambda>c. c \<noteq> CHR 0x00) name), v)"
  using decodePV_body [OF assms, of v] by simp

lemma handlePVPacket_channel:
  assumes "data pkt = Buffer_from (channel_path n (attr_name atr)) @ [0x00, 0x00, 0x00] @ writeFloatLE v"
  shows "\<exists>st'. handlePVPacket st pkt = Inr st'
           \<and> channelStates st' =
               (channelStates st)(n \<mapsto> (case channelStates st n of None \<Rightarrow> Map.empty | Some cs \<Rightarrow> cs)
                                         (atr \<mapsto> float_gt_zero v))
           \<and> mixerBypassState st' = mixerBypassState st"
  by (simp add: handlePVPacket_def assms decodePV_body_Cons [OF ascii_channel_path]
        no_NUL_channel_path channel_path_not_global match_line_channel_path Let_def)

lemma handlePVPacket_global:
  assumes "data pkt = Buffer_from ''global/mixerBypass'' @ [0x00, 0x00, 0x00] @ writeFloatLE v"
  shows "handlePVPacket st pkt =
     Inr (logmsg Debug ''Mixer Bypass state updated via PV packet''
            (st\<lparr>mixerBypassState := float_gt_zero v\<rparr>))"
proof -
  have "\<forall>x\<in>set (Buffer_from ''global/mixerBypass''). x \<le> 0x7F"
    by (simp add: Buffer_from_def)
  from decodePV_body_Cons [OF this, of v] show ?thesis
    by (simp add: handlePVPacket_def assms Let_def)
qed

text \<open>
  C4, the global parameter. The read of the mixer bypass state does not tell a state that
  was never observed from an observed false: the constructor sets the field to \<open>false\<close>, and
  after a PV packet that reports \<open>global/mixerBypass\<close> as 0.0 the feedback callback returns
  the same colour as before any packet.
\<close>

theorem bypass_unknown_reads_as_false:
  "handlePVPacket constructor
     \<lparr>type = ''PV'', addressPair = \<lparr>a = 0x68, b = 0x66\<rparr>,
      data = Buffer_from ''global/mixerBypass'' @ [0x00, 0x00, 0x00] @ writeFloatLE f32_zero\<rparr>
     = Inr (logmsg Debug ''Mixer Bypass state updated via PV packet''
              (constructor\<lparr>mixerBypassState := False\<rparr>))
   \<and> mixer_bypass_state constructor (1::nat) 2 = Some 2
   \<and> mixer_bypass_state (logmsg Debug ''Mixer Bypass state updated via PV packet''
                            (constructor\<lparr>mixerBypassState := False\<rparr>)) (1::nat) 2 = Some 2"
  by (simp add: handlePVPacket_global mixer_bypass_state_def constructor_def float_gt_zero_consts)

text \<open>
  C4, as the code has it. For every channel number \<open>N\<close> and every attribute, the read that
  the toggles and the feedback callbacks start with is unknown in the constructed state and
  known, with the value reported, after a PV packet for \<open>line/ch<N>/<attribute>\<close>. The four
  feedback callbacks of a channel, for mute, solo, hpf and 48v, return no colour while the
  attribute is unknown and the colour of the reported value afterwards: unknown, true and
  false are three results. The mixer bypass state is two-valued: it is false in the
  constructed state and its feedback never returns \<open>null\<close>.
\<close>

theorem channel_reads_are_tristate:
  assumes "n < 2 ^ 53"
  shows "readAttr constructor n atr = None
   \<and> channel_mute_state constructor n onColor offColor = None
   \<and> channel_solo_state constructor n onColor offColor = None
   \<and> channel_hpf_state constructor n onColor offColor = None
   \<and> channel_48v_state constructor n onColor offColor = None
   \<and> (\<exists>st'. handlePVPacket st
               \<lparr>type = ''PV'', addressPair = ap,
                data = Buffer_from (''line/ch'' @ show_nat n @ ''/'' @ attr_name atr)
                         @ [0x00, 0x00, 0x00] @ writeFloatLE v\<rparr>
             = Inr st'
         \<and> readAttr st' n atr = Some (float_gt_zero v)
         \<and> (atr = Mute \<longrightarrow> channel_mute_state st' n onColor offColor
               = Some (if float_gt_zero v then onColor else offColor))
         \<and> (atr = Solo \<longrightarrow> channel_solo_state st' n onColor offColor
               = Some (if float_gt_zero v then onColor else offColor))
         \<and> (atr = Hpf \<longrightarrow> channel_hpf_state st' n onColor offColor
               = Some (if float_gt_zero v then onColor else offColor))
         \<and> (atr = V48 \<longrightarrow> channel_48v_state st' n onColor offColor
               = Some (if float_gt_zero v then onColor else offColor)))
   \<and> mixer_bypass_state constructor bypassedColor activeColor = Some activeColor
   \<and> mixer_bypass_state st bypassedColor activeColor
       = Some (if mixerBypassState st then bypassedColor else activeColor)"
proof -
  let ?pkt = "\<lparr>type = ''PV'', addressPair = ap,
                data = Buffer_from (''line/ch'' @ show_nat n @ ''/'' @ attr_name atr)
                         @ [0x00, 0x00, 0x00] @ writeFloatLE v\<rparr>"
  have d: "data ?pkt = Buffer_from (channel_path n (attr_name atr)) @ [0x00, 0x00, 0x00] @ writeFloatLE v"
    by (simp add: channel_path_def)
  have "\<exists>st'. handlePVPacket st pkt = Inr st'
           \<and> channelStates st' =
               (channelStates st)(n \<mapsto> (case channelStates st n of None \<Rightarrow> Map.empty | Some cs \<Rightarrow> cs)
                                         (atr \<mapsto> float_gt_zero v))"
    if "data pkt = Buffer_from (channel_path n (attr_name atr)) @ [0x00, 0x00, 0x00] @ writeFloatLE v"
    for pkt
    using that
    by (simp add: handlePVPacket_def decodePV_body_Cons [OF ascii_channel_path]
          no_NUL_channel_path channel_path_not_global match_line_channel_path Let_def)
  from this [OF d] obtain st'
    where h: "handlePVPacket st ?pkt = Inr st'"
      and c: "channelStates st' =
               (channelStates st)(n \<mapsto> (case channelStates st n of None \<Rightarrow> Map.empty | Some cs \<Rightarrow> cs)
                                         (atr \<mapsto> float_gt_zero v))"
    by auto
  from c have r: "readAttr st' n atr = Some (float_gt_zero v)"
    by (simp add: readAttr_def)
  then have "(atr = Mute \<longrightarrow> channel_mute_state st' n onColor offColor
               = Some (if float_gt_zero v then onColor else offColor))
         \<and> (atr = Solo \<longrightarrow> channel_solo_state st' n onColor offColor
               = Some (if float_gt_zero v then onColor else offColor))
         \<and> (atr = Hpf \<longrightarrow> channel_hpf_state st' n onColor offColor
               = Some (if float_gt_zero v then onColor else offColor))
         \<and> (atr = V48 \<longrightarrow> channel_48v_state st' n onColor offColor
               = Some (if float_gt_zero v then onColor else offColor))"
    by (auto simp: channel_mute_state_def channel_solo_state_def channel_hpf_state_def
          channel_48v_state_def channel_feedback_def)
  with h r have "\<exists>st'. handlePVPacket st ?pkt = Inr st'
         \<and> readAttr st' n atr = Some (float_gt_zero v)
         \<and> (atr = Mute \<longrightarrow> channel_mute_state st' n onColor offColor
               = Some (if float_gt_zero v then onColor else offColor))
         \<and> (atr = Solo \<longrightarrow> channel_solo_state st' n onColor offColor
               = Some (if float_gt_zero v then onColor else offColor))
         \<and> (atr = Hpf \<longrightarrow> channel_hpf_state st' n onColor offColor
               = Some (if float_gt_zero v then onColor else offColor))
         \<and> (atr = V48 \<longrightarrow> channel_48v_state st' n onColor offColor
               = Some (if float_gt_zero v then onColor else offColor))"
    by blast
  moreover have "readAttr constructor n atr = None"
    "channel_mute_state constructor n onColor offColor = None"
    "channel_solo_state constructor n onColor offColor = None"
    "channel_hpf_state constructor n onColor offColor = None"
    "channel_48v_state constructor n onColor offColor = None"
    by (simp_all add: channel_mute_state_def channel_solo_state_def channel_hpf_state_def
          channel_48v_state_def channel_feedback_def readAttr_def constructor_def)
  moreover have "mixer_bypass_state constructor bypassedColor activeColor = Some activeColor"
    "mixer_bypass_state st bypassedColor activeColor
       = Some (if mixerBypassState st then bypassedColor else activeColor)"
    by (simp_all add: mixer_bypass_state_def constructor_def)
  ultimately show ?thesis by blast
qed

lemma line_ch3_48v: "''line/ch'' @ show_nat 3 @ ''/'' @ attr_name V48 = ''line/ch3/48v''"
  by (simp add: show_nat_digit digit_char_def char_of_def bit_Suc_0_iff)

lemma line_ch3_mute: "''line/ch'' @ show_nat 3 @ ''/'' @ attr_name Mute = ''line/ch3/mute''"
  by (simp add: show_nat_digit digit_char_def char_of_def bit_Suc_0_iff)

text \<open>
  Channel 3 on a fresh instance: no colour before; the off colour of 48v after a reported 0.0,
  the on colour of mute after a reported 1.0 (the bit pattern \<open>0x3F800000\<close>), and the off
  colour of mute after a reported -1.0 (\<open>0xBF800000\<close>).
\<close>

theorem channel_reads_are_tristate_witness:
  "channel_48v_state constructor 3 (1::nat) 2 = None
   \<and> channel_mute_state constructor 3 (1::nat) 2 = None
   \<and> (\<exists>st'. handlePVPacket constructor
               \<lparr>type = ''PV'', addressPair = \<lparr>a = 0x68, b = 0x66\<rparr>,
                data = Buffer_from ''line/ch3/48v'' @ [0x00, 0x00, 0x00] @ writeFloatLE 0\<rparr>
             = Inr st'
         \<and> readAttr st' 3 V48 = Some False
         \<and> channel_48v_state st' 3 (1::nat) 2 = Some 2)
   \<and> (\<exists>st'. handlePVPacket constructor
               \<lparr>type = ''PV'', addressPair = \<lparr>a = 0x68, b = 0x66\<rparr>,
                data = Buffer_from ''line/ch3/mute'' @ [0x00, 0x00, 0x00] @ writeFloatLE 0x3F800000\<rparr>
             = Inr st'
         \<and> readAttr st' 3 Mute = Some True
         \<and> channel_mute_state st' 3 (1::nat) 2 = Some 1)
   \<and> (\<exists>st'. handlePVPacket constructor
               \<lparr>type = ''PV'', addressPair = \<lparr>a = 0x68, b = 0x66\<rparr>,
                data = Buffer_from ''line/ch3/mute'' @ [0x00, 0x00, 0x00] @ writeFloatLE 0xBF800000\<rparr>
             = Inr st'
         \<and> readAttr st' 3 Mute = Some False
         \<and> channel_mute_state st' 3 (1::nat) 2 = Some 2)"
proof -
  have n: "(3::nat) < 2 ^ 53" by simp
  have g: "\<not> float_gt_zero 0" "float_gt_zero 0x3F800000" "\<not> float_gt_zero 0xBF800000"
    by (simp_all add: float_gt_zero_def)
  note t = channel_reads_are_tristate [OF n, where onColor = "1::nat" and offColor = "2::nat"
      and st = constructor and ap = "\<lparr>a = 0x68, b = 0x66\<rparr>"
      and bypassedColor = "1::nat" and activeColor = "2::nat"]
  from t [where atr = V48 and v = 0] g(1)
  have "channel_48v_state constructor 3 (1::nat) 2 = None
   \<and> (\<exists>st'. handlePVPacket constructor
               \<lparr>type = ''PV'', addressPair = \<lparr>a = 0x68, b = 0x66\<rparr>,
                data = Buffer_from ''line/ch3/48v'' @ [0x00, 0x00, 0x00] @ writeFloatLE 0\<rparr>
             = Inr st'
         \<and> readAttr st' 3 V48 = Some False
         \<and> channel_48v_state st' 3 (1::nat) 2 = Some 2)"
    unfolding line_ch3_48v by auto
  moreover from t [where atr = Mute and v = "0x3F800000"] g(2)
  have "channel_mute_state constructor 3 (1::nat) 2 = None
   \<and> (\<exists>st'. handlePVPacket constructor
               \<lparr>type = ''PV'', addressPair = \<lparr>a = 0x68, b = 0x66\<rparr>,
                data = Buffer_from ''line/ch3/mute'' @ [0x00, 0x00, 0x00] @ writeFloatLE 0x3F800000\<rparr>
             = Inr st'
         \<and> readAttr st' 3 Mute = Some True
         \<and> channel_mute_state st' 3 (1::nat) 2 = Some 1)"
    unfolding line_ch3_mute by auto
  moreover from t [where atr = Mute and v = "0xBF800000"] g(3)
  have "\<exists>st'. handlePVPacket constructor
               \<lparr>type = ''PV'', addressPair = \<lparr>a = 0x68, b = 0x66\<rparr>,
                data = Buffer_from ''line/ch3/mute'' @ [0x00, 0x00, 0x00] @ writeFloatLE 0xBF800000\<rparr>
             = Inr st'
         \<and> readAttr st' 3 Mute = Some False
         \<and> channel_mute_state st' 3 (1::nat) 2 = Some 2"
    unfolding line_ch3_mute by auto
  ultimately show ?thesis by blast
qed

section \<open>A snapshot that cannot be read\<close>

lemma slice_to_end: "slice d (int k) (int (length d)) = drop k d"
proof (cases "k \<le> length d")
  case True
  then show ?thesis by (simp add: slice_def slice_index_def Let_def min_absorb1)
next
  case False
  then show ?thesis by (simp add: slice_def slice_index_def Let_def min_absorb2)
qed

lemma compressedData_drop:
  "slice (slice d 4 (int (length d))) 2 (int (length (slice d 4 (int (length d))))) = drop 6 d"
  using slice_to_end [of d 4] slice_to_end [of "drop 4 d" 2] by simp

lemma handleZMPacket_short:
  "length (data pkt) < 4 \<Longrightarrow> handleZMPacket ext st pkt = Inl RangeError"
  by (simp add: handleZMPacket_def)

lemma handleZMPacket_inflate_fails:
  assumes "4 \<le> length (data pkt)" and "inflateRawSync ext (drop 6 (data pkt)) = None"
  shows "handleZMPacket ext st pkt = Inr (logmsg Error ''Error decompressing ZM packet data'' st)"
  using assms by (simp add: handleZMPacket_def Let_def compressedData_drop)

lemma handleZMPacket_parse_fails:
  assumes "4 \<le> length (data pkt)" and "inflateRawSync ext (drop 6 (data pkt)) = Some d"
    and "JSON_parse ext d = None"
  shows "handleZMPacket ext st pkt = Inr (logmsg Error ''Error decompressing ZM packet data'' st)"
  using assms by (simp add: handleZMPacket_def Let_def compressedData_drop)

text \<open>
  C8. When \<open>inflateRawSync\<close> raises on the compressed data (the body without its first six
  bytes), or \<open>JSON.parse\<close> raises on the inflated text, \<open>handleZMPacket\<close> logs the error and
  returns with every channel record and the mixer bypass state as they were. On a body
  shorter than four bytes the read of the prefix raises before anything else happens.
\<close>

theorem snapshot_failure_keeps_state:
  assumes "inflateRawSync ext (drop 6 (data pkt)) = None
           \<or> (\<exists>d. inflateRawSync ext (drop 6 (data pkt)) = Some d \<and> JSON_parse ext d = None)"
  shows "handleZMPacket ext st pkt =
           (if length (data pkt) < 4 then Inl RangeError
            else Inr (logmsg Error ''Error decompressing ZM packet data'' st))
         \<and> channelStates (logmsg Error ''Error decompressing ZM packet data'' st) = channelStates st
         \<and> mixerBypassState (logmsg Error ''Error decompressing ZM packet data'' st) = mixerBypassState st
         \<and> logged (logmsg Error ''Error decompressing ZM packet data'' st)
             = logged st @ [(Error, ''Error decompressing ZM packet data'')]"
proof (cases "length (data pkt) < 4")
  case True
  then show ?thesis by (simp add: handleZMPacket_short)
next
  case False
  then have l: "4 \<le> length (data pkt)" by simp
  from assms have "handleZMPacket ext st pkt = Inr (logmsg Error ''Error decompressing ZM packet data'' st)"
  proof
    assume "inflateRawSync ext (drop 6 (data pkt)) = None"
    with l show ?thesis by (rule handleZMPacket_inflate_fails)
  next
    assume "\<exists>d. inflateRawSync ext (drop 6 (data pkt)) = Some d \<and> JSON_parse ext d = None"
    then obtain d where "inflateRawSync ext (drop 6 (data pkt)) = Some d" "JSON_parse ext d = None"
      by blast
    with l show ?thesis by (rule handleZMPacket_parse_fails)
  qed
  with False show ?thesis by simp
qed

text \<open>A body whose compressed part cannot be inflated, on a state with a known solo and bypass.\<close>

theorem snapshot_failure_keeps_state_witness:
  "handleZMPacket \<lparr>inflateRawSync = (\<lambda>c. None), JSON_parse = (\<lambda>t. None), gt0 = (\<lambda>v. False)\<rparr>
     (constructor\<lparr>channelStates := [3 \<mapsto> [Solo \<mapsto> True]], mixerBypassState := True\<rparr>)
     \<lparr>type = ''ZM'', addressPair = \<lparr>a = 0x68, b = 0x66\<rparr>,
      data = [0x01, 0x00, 0x00, 0x00, 0x78, 0x9C, 0xFF, 0xFF]\<rparr>
   = Inr (logmsg Error ''Error decompressing ZM packet data''
            (constructor\<lparr>channelStates := [3 \<mapsto> [Solo \<mapsto> True]], mixerBypassState := True\<rparr>))"
  using snapshot_failure_keeps_state
    [of "\<lparr>inflateRawSync = (\<lambda>c. None), JSON_parse = (\<lambda>t. None), gt0 = (\<lambda>v. False)\<rparr>"
        "\<lparr>type = ''ZM'', addressPair = \<lparr>a = 0x68, b = 0x66\<rparr>,
          data = [0x01, 0x00, 0x00, 0x00, 0x78, 0x9C, 0xFF, 0xFF]\<rparr>"
        "constructor\<lparr>channelStates := [3 \<mapsto> [Solo \<mapsto> True]], mixerBypassState := True\<rparr>"]
  by simp

section \<open>A snapshot merges into the state\<close>

lemma update_attr_other: "atr' \<noteq> atr \<Longrightarrow> update_attr g vals atr' cs atr = cs atr"
  by (simp add: update_attr_def split: jsvalue.splits)

lemma update_attr_absent:
  "field vals (attr_name atr) = Undefined \<Longrightarrow> update_attr g vals atr cs = cs"
  by (simp add: update_attr_def)

lemma update_attrs_absent:
  assumes "field vals (attr_name atr) = Undefined"
  shows "update_attr g vals Pad (update_attr g vals Hpf (update_attr g vals V48
           (update_attr g vals Solo (update_attr g vals Mute cs)))) atr = cs atr"
  using assms by (cases atr) (simp_all add: update_attr_other update_attr_absent)

lemma readAttr_channel_entry:
  assumes "channel_entry g st e = Inr st'" and "\<not> entry_sets n atr e"
  shows "readAttr st' n atr = readAttr st n atr"
proof (cases "match_ch (fst e)")
  case None
  with assms(1) show ?thesis by (simp add: channel_entry_def)
next
  case (Some m)
  show ?thesis
  proof (cases "m = n")
    case False
    with assms(1) Some show ?thesis
      by (auto simp: channel_entry_def readAttr_def Let_def split: if_splits)
  next
    case True
    with assms(2) Some have "field (field (Json (snd e)) ''values'') (attr_name atr) = Undefined"
      by (simp add: entry_sets_def)
    with assms(1) Some True show ?thesis
      by (auto simp: channel_entry_def readAttr_def Let_def update_attrs_absent
            split: if_splits option.splits)
  qed
qed

lemma mixerBypassState_channel_entry:
  "channel_entry g st e = Inr st' \<Longrightarrow> mixerBypassState st' = mixerBypassState st"
  by (auto simp: channel_entry_def Let_def split: option.splits if_splits)

lemma channel_entries_keeps:
  assumes "\<not> list_ex (entry_sets n atr) es"
  shows "readAttr (fst (channel_entries g es st)) n atr = readAttr st n atr
         \<and> mixerBypassState (fst (channel_entries g es st)) = mixerBypassState st"
  using assms
proof (induction es arbitrary: st)
  case Nil
  show ?case by simp
next
  case (Cons e es)
  show ?case
  proof (cases "channel_entry g st e")
    case (Inl err)
    then show ?thesis by simp
  next
    case (Inr st1)
    from Cons.prems have "\<not> entry_sets n atr e" and "\<not> list_ex (entry_sets n atr) es"
      by simp_all
    with Cons.IH [of st1] readAttr_channel_entry [OF Inr] mixerBypassState_channel_entry [OF Inr]
    show ?thesis using Inr by simp
  qed
qed

lemma mixerBypassState_channel_entries:
  "mixerBypassState (fst (channel_entries g es st)) = mixerBypassState st"
proof (induction es arbitrary: st)
  case Nil
  show ?case by simp
next
  case (Cons e es)
  then show ?case
    by (cases "channel_entry g st e") (simp_all add: mixerBypassState_channel_entry)
qed

lemma updateChannelStates_keeps:
  "\<not> document_has_attr j n atr \<Longrightarrow>
     readAttr (fst (updateChannelStates g st j)) n atr = readAttr st n atr"
  by (simp add: updateChannelStates_def document_has_attr_def channel_entries_keeps
        split: option.splits)

lemma mixerBypassState_updateChannelStates:
  "mixerBypassState (fst (updateChannelStates g st j)) = mixerBypassState st"
  by (simp add: updateChannelStates_def mixerBypassState_channel_entries split: option.splits)

lemma channelStates_updateGlobalStates:
  "channelStates (updateGlobalStates g st j) = channelStates st"
  by (simp add: updateGlobalStates_def Let_def split: option.splits jsvalue.splits)

lemma updateGlobalStates_keeps:
  "\<not> document_has_mixerBypass j \<Longrightarrow>
     mixerBypassState (updateGlobalStates g st j) = mixerBypassState st"
  by (simp add: updateGlobalStates_def document_has_mixerBypass_def Let_def
        split: option.splits jsvalue.splits)


lemma handleZMPacket_parsed:
  assumes "handleZMPacket ext st pkt = Inr st'"
    and "inflateRawSync ext (drop 6 (data pkt)) = Some d" and "JSON_parse ext d = Some j"
  shows "st' = (case updateChannelStates (greater_than_0 (gt0 ext)) st j of
                  (st1, Some err) \<Rightarrow> logmsg Error ''Error decompressing ZM packet data'' st1
                | (st1, None) \<Rightarrow> updateGlobalStates (greater_than_0 (gt0 ext)) st1 j)"
  using assms
  by (auto simp: handleZMPacket_def Let_def compressedData_drop
        split: if_splits prod.splits option.splits)

text \<open>
  C6. A snapshot that is inflated and parsed to the document \<open>j\<close>, whose channel keys are
  exact, leaves every attribute of every channel that the document does not set as it was
  known (or unknown) before, and leaves the mixer bypass state as it was when the document
  has no \<open>children.global.values.mixerBypass\<close>: the update merges into the records, it does
  not replace them. This holds also when a \<open>null\<close> channel entry ends the update early.
\<close>

theorem snapshot_merges:
  assumes "handleZMPacket ext st pkt = Inr st'"
    and "inflateRawSync ext (drop 6 (data pkt)) = Some d" and "JSON_parse ext d = Some j"
    and "channel_keys_exact j" and "n < 2 ^ 53"
  shows "(\<not> document_has_attr j n atr \<longrightarrow> readAttr st' n atr = readAttr st n atr)
       \<and> (\<not> document_has_mixerBypass j \<longrightarrow> mixerBypassState st' = mixerBypassState st)"
proof -
  obtain st1 r where u: "updateChannelStates (greater_than_0 (gt0 ext)) st j = (st1, r)"
    by (cases "updateChannelStates (greater_than_0 (gt0 ext)) st j")
  then have st1: "st1 = fst (updateChannelStates (greater_than_0 (gt0 ext)) st j)" by simp
  have a: "readAttr st1 n atr = readAttr st n atr" if "\<not> document_has_attr j n atr"
    using that by (simp add: st1 updateChannelStates_keeps)
  have b: "mixerBypassState st1 = mixerBypassState st"
    by (simp add: st1 mixerBypassState_updateChannelStates)
  show ?thesis
  proof (cases r)
    case None
    with handleZMPacket_parsed [OF assms(1,2,3)] u
    have "st' = updateGlobalStates (greater_than_0 (gt0 ext)) st1 j" by simp
    with a b show ?thesis
      by (simp add: readAttr_def channelStates_updateGlobalStates updateGlobalStates_keeps)
  next
    case (Some err)
    with handleZMPacket_parsed [OF assms(1,2,3)] u
    have "st' = logmsg Error ''Error decompressing ZM packet data'' st1" by simp
    with a b show ?thesis
      by (simp add: readAttr_def)
  qed
qed

lemma handleZMPacket_returns:
  "4 \<le> length (data pkt) \<Longrightarrow> \<exists>st'. handleZMPacket ext st pkt = Inr st'"
  by (simp add: handleZMPacket_def Let_def split: option.splits prod.splits)

lemma match_ch_ch3: "match_ch ''ch3'' = Some 3"
  by (simp add: match_ch_def match_prefix_digits_def is_digit_def parseInt_def)

lemma lineChildren_snapshot_ch3_mute:
  "lineChildren snapshot_ch3_mute =
     Some (Json (JObj [(''ch3'', JObj [(''values'', JObj [(''mute'', JNum (Finite 1))])])]))"
  by (simp add: lineChildren_def snapshot_ch3_mute_def)

lemma match_ch_examples: "match_ch ''ch1'' = Some 1" "match_ch ''aux1'' = None"
  by (simp_all add: match_ch_def match_prefix_digits_def is_digit_def parseInt_def)

text \<open>
  The three documents above on a state where channel 3 has solo = true and the mixer is
  bypassed. The first sets mute of channel 3 and leaves its solo and the bypass. The second
  turns the bypass off and leaves the channel. The third makes no record for channel 1, whose
  \<open>values\<close> is 0, and none for the key \<open>aux1\<close>; it sets mute of channel 3 to false and its
  pad to true and leaves its solo.
\<close>

theorem snapshot_merges_witness:
  "(\<exists>st'. handleZMPacket
            \<lparr>inflateRawSync = (\<lambda>c. Some []), JSON_parse = (\<lambda>t. Some snapshot_ch3_mute),
             gt0 = (\<lambda>v. False)\<rparr>
            (constructor\<lparr>channelStates := [3 \<mapsto> [Solo \<mapsto> True]], mixerBypassState := True\<rparr>)
            \<lparr>type = ''ZM'', addressPair = \<lparr>a = 0x68, b = 0x66\<rparr>,
             data = [0x01, 0x00, 0x00, 0x00, 0x78, 0x9C, 0x03, 0x00]\<rparr> = Inr st'
      \<and> readAttr st' 3 Solo = Some True \<and> readAttr st' 3 Mute = Some True
      \<and> mixerBypassState st' = True)
   \<and> (\<exists>st'. handleZMPacket
            \<lparr>inflateRawSync = (\<lambda>c. Some []), JSON_parse = (\<lambda>t. Some snapshot_bypass_off),
             gt0 = (\<lambda>v. False)\<rparr>
            (constructor\<lparr>channelStates := [3 \<mapsto> [Solo \<mapsto> True]], mixerBypassState := True\<rparr>)
            \<lparr>type = ''ZM'', addressPair = \<lparr>a = 0x68, b = 0x66\<rparr>,
             data = [0x01, 0x00, 0x00, 0x00, 0x78, 0x9C, 0x03, 0x00]\<rparr> = Inr st'
      \<and> readAttr st' 3 Solo = Some True \<and> readAttr st' 3 Mute = None
      \<and> mixerBypassState st' = False)
   \<and> (\<exists>st'. handleZMPacket
            \<lparr>inflateRawSync = (\<lambda>c. Some []), JSON_parse = (\<lambda>t. Some snapshot_mixed),
             gt0 = (\<lambda>v. False)\<rparr>
            (constructor\<lparr>channelStates := [3 \<mapsto> [Solo \<mapsto> True]], mixerBypassState := True\<rparr>)
            \<lparr>type = ''ZM'', addressPair = \<lparr>a = 0x68, b = 0x66\<rparr>,
             data = [0x01, 0x00, 0x00, 0x00, 0x78, 0x9C, 0x03, 0x00]\<rparr> = Inr st'
      \<and> channelStates st' = [3 \<mapsto> [Solo \<mapsto> True, Mute \<mapsto> False, Pad \<mapsto> True]]
      \<and> mixerBypassState st' = True)"
proof (intro conjI)
  let ?ext = "\<lparr>inflateRawSync = (\<lambda>c. Some []), JSON_parse = (\<lambda>t. Some snapshot_ch3_mute),
             gt0 = (\<lambda>v. False)\<rparr>"
  let ?st = "constructor\<lparr>channelStates := [3 \<mapsto> [Solo \<mapsto> True]], mixerBypassState := True\<rparr>"
  let ?pkt = "\<lparr>type = ''ZM'', addressPair = \<lparr>a = 0x68, b = 0x66\<rparr>,
             data = [0x01, 0x00, 0x00, 0x00, 0x78, 0x9C, 0x03, 0x00]\<rparr>"
  obtain st' where h: "handleZMPacket ?ext ?st ?pkt = Inr st'"
    using handleZMPacket_returns [of ?pkt ?ext ?st] by auto
  have i: "inflateRawSync ?ext (drop 6 (data ?pkt)) = Some []" by simp
  have p: "JSON_parse ?ext [] = Some snapshot_ch3_mute" by simp
  have no_solo: "\<not> document_has_attr snapshot_ch3_mute 3 Solo"
    by (simp add: document_has_attr_def lineChildren_snapshot_ch3_mute entry_sets_def match_ch_ch3)
  have no_bypass: "\<not> document_has_mixerBypass snapshot_ch3_mute"
    by (simp add: document_has_mixerBypass_def globalValues_def snapshot_ch3_mute_def)
  have exact: "channel_keys_exact snapshot_ch3_mute"
    by (simp add: channel_keys_exact_def lineChildren_snapshot_ch3_mute match_ch_ch3)
  have n: "(3::nat) < 2 ^ 53" by simp
  from snapshot_merges [OF h i p exact n, of Solo] no_solo no_bypass
  have keep: "readAttr st' 3 Solo = Some True" "mixerBypassState st' = True"
    by (simp_all add: readAttr_def)
  have "updateChannelStates (greater_than_0 (\<lambda>v. False)) ?st snapshot_ch3_mute =
      (?st\<lparr>channelStates := [3 \<mapsto> [Solo \<mapsto> True, Mute \<mapsto> True]]\<rparr>, None)"
    by (simp add: updateChannelStates_def lineChildren_snapshot_ch3_mute channel_entry_def
          match_ch_ch3 update_attr_def greater_than_0_def Let_def)
  with handleZMPacket_parsed [OF h i p]
  have "readAttr st' 3 Mute = Some True"
    by (simp add: readAttr_def channelStates_updateGlobalStates)
  with h keep show "\<exists>st'. handleZMPacket ?ext ?st ?pkt = Inr st'
      \<and> readAttr st' 3 Solo = Some True \<and> readAttr st' 3 Mute = Some True
      \<and> mixerBypassState st' = True"
    by blast
next
  let ?ext = "\<lparr>inflateRawSync = (\<lambda>c. Some []), JSON_parse = (\<lambda>t. Some snapshot_bypass_off),
             gt0 = (\<lambda>v. False)\<rparr>"
  let ?st = "constructor\<lparr>channelStates := [3 \<mapsto> [Solo \<mapsto> True]], mixerBypassState := True\<rparr>"
  let ?pkt = "\<lparr>type = ''ZM'', addressPair = \<lparr>a = 0x68, b = 0x66\<rparr>,
             data = [0x01, 0x00, 0x00, 0x00, 0x78, 0x9C, 0x03, 0x00]\<rparr>"
  obtain st' where h: "handleZMPacket ?ext ?st ?pkt = Inr st'"
    using handleZMPacket_returns [of ?pkt ?ext ?st] by auto
  have i: "inflateRawSync ?ext (drop 6 (data ?pkt)) = Some []" by simp
  have p: "JSON_parse ?ext [] = Some snapshot_bypass_off" by simp
  have lc: "lineChildren snapshot_bypass_off = None"
    by (simp add: lineChildren_def snapshot_bypass_off_def)
  have no_attr: "\<not> document_has_attr snapshot_bypass_off 3 Solo"
    "\<not> document_has_attr snapshot_bypass_off 3 Mute"
    by (simp_all add: document_has_attr_def lc)
  have exact: "channel_keys_exact snapshot_bypass_off"
    by (simp add: channel_keys_exact_def lc)
  have n: "(3::nat) < 2 ^ 53" by simp
  from snapshot_merges [OF h i p exact n, of Solo] snapshot_merges [OF h i p exact n, of Mute] no_attr
  have keep: "readAttr st' 3 Solo = Some True" "readAttr st' 3 Mute = None"
    by (simp_all add: readAttr_def)
  have "updateChannelStates (greater_than_0 (\<lambda>v. False)) ?st snapshot_bypass_off = (?st, None)"
    by (simp add: updateChannelStates_def lc)
  with handleZMPacket_parsed [OF h i p]
  have "st' = updateGlobalStates (greater_than_0 (\<lambda>v. False)) ?st snapshot_bypass_off"
    by simp
  then have "mixerBypassState st' = False"
    by (simp add: updateGlobalStates_def globalValues_def snapshot_bypass_off_def
          greater_than_0_def Let_def)
  with h keep show "\<exists>st'. handleZMPacket ?ext ?st ?pkt = Inr st'
      \<and> readAttr st' 3 Solo = Some True \<and> readAttr st' 3 Mute = None
      \<and> mixerBypassState st' = False"
    by blast
next
  let ?ext = "\<lparr>inflateRawSync = (\<lambda>c. Some []), JSON_parse = (\<lambda>t. Some snapshot_mixed),
             gt0 = (\<lambda>v. False)\<rparr>"
  let ?st = "constructor\<lparr>channelStates := [3 \<mapsto> [Solo \<mapsto> True]], mixerBypassState := True\<rparr>"
  let ?pkt = "\<lparr>type = ''ZM'', addressPair = \<lparr>a = 0x68, b = 0x66\<rparr>,
             data = [0x01, 0x00, 0x00, 0x00, 0x78, 0x9C, 0x03, 0x00]\<rparr>"
  obtain st' where h: "handleZMPacket ?ext ?st ?pkt = Inr st'"
    using handleZMPacket_returns [of ?pkt ?ext ?st] by auto
  have i: "inflateRawSync ?ext (drop 6 (data ?pkt)) = Some []" by simp
  have p: "JSON_parse ?ext [] = Some snapshot_mixed" by simp
  have lc: "lineChildren snapshot_mixed =
      Some (Json (JObj [(''ch1'', JObj [(''values'', JNum (Finite 0))]),
             (''aux1'', JObj [(''values'', JObj [(''mute'', JNum (Finite 1))])]),
             (''ch3'', JObj [(''values'', JObj [(''mute'', JNum (Finite 0)), (''pad'', JBool True)])])]))"
    by (simp add: lineChildren_def snapshot_mixed_def)
  have no_bypass: "\<not> document_has_mixerBypass snapshot_mixed"
    by (simp add: document_has_mixerBypass_def globalValues_def snapshot_mixed_def)
  have exact: "channel_keys_exact snapshot_mixed"
    by (simp add: channel_keys_exact_def lc match_ch_ch3 match_ch_examples)
  have n: "(3::nat) < 2 ^ 53" by simp
  from snapshot_merges [OF h i p exact n, of Solo] no_bypass
  have keep: "mixerBypassState st' = True"
    by simp
  have "updateChannelStates (greater_than_0 (\<lambda>v. False)) ?st snapshot_mixed =
      (?st\<lparr>channelStates := [3 \<mapsto> [Solo \<mapsto> True, Mute \<mapsto> False, Pad \<mapsto> True]]\<rparr>, None)"
    by (simp add: updateChannelStates_def lc channel_entry_def match_ch_ch3 match_ch_examples
          update_attr_def greater_than_0_def Let_def)
  with handleZMPacket_parsed [OF h i p]
  have "channelStates st' = [3 \<mapsto> [Solo \<mapsto> True, Mute \<mapsto> False, Pad \<mapsto> True]]"
    by (simp add: channelStates_updateGlobalStates)
  with h keep show "\<exists>st'. handleZMPacket ?ext ?st ?pkt = Inr st'
      \<and> channelStates st' = [3 \<mapsto> [Solo \<mapsto> True, Mute \<mapsto> False, Pad \<mapsto> True]]
      \<and> mixerBypassState st' = True"
    by blast
qed

section \<open>Frames in the receive buffer\<close>

lemma u16_roundtrip:
  assumes "n \<le> 65535"
  shows "unat (of_nat (n mod 256) :: byte) + 256 * unat (of_nat (n div 256 mod 256) :: byte) = n"
proof -
  have "unat (of_nat (n mod 256) :: byte) = n mod 256"
    by (simp add: unat_of_nat)
  moreover have "unat (of_nat (n div 256 mod 256) :: byte) = n div 256 mod 256"
    by (simp add: unat_of_nat)
  moreover from assms have "n div 256 mod 256 = n div 256"
    by simp
  ultimately show ?thesis by simp
qed

lemma length_frame [simp]: "length (frame p) = 6 + length p"
  by (simp add: frame_def)

lemma indexOf_UC_frame: "indexOf_UC (frame p @ rest) = Some 0"
  by (simp add: frame_def)

lemma version_frame: "u16_at (frame p @ rest) 2 = 1"
  by (simp add: frame_def u16_at_def)

lemma size_frame: "length p \<le> 65535 \<Longrightarrow> u16_at (frame p @ rest) 4 = length p"
  using u16_roundtrip [of "length p"] by (simp add: frame_def u16_at_def u16le_def)

lemma take_frame: "take (6 + length p) (frame p @ rest) = frame p"
  using length_frame [of p] by (simp del: length_frame)

lemma drop_frame: "drop (6 + length p) (frame p @ rest) = rest"
  using length_frame [of p] by (simp del: length_frame)

lemma loop_body_frame:
  assumes "receiveBuffer st = frame p @ rest" and "length p \<le> 65535"
  shows "loop_body ext st =
    (case dispatch ext (st\<lparr>receiveBuffer := rest\<rparr>) (frame p) of
       Inr st3 \<Rightarrow> Continue st3
     | Inl e \<Rightarrow> Continue ((logmsg Error ''Error parsing TCP packet'' (st\<lparr>receiveBuffer := rest\<rparr>))
                            \<lparr>receiveBuffer := drop 2 rest\<rparr>))"
  using assms
  by (simp add: loop_body_def indexOf_UC_frame version_frame size_frame take_frame drop_frame Let_def
        split: sum.splits)


lemma slice_header_frame: "slice (frame p) 0 6 = [0x55, 0x43, 0x01, 0x00] @ u16le (length p)"
  by (simp add: slice_def slice_index_def Let_def frame_def)

lemma slice_payload_frame: "slice (frame p) 6 (6 + int (length p)) = p"
proof -
  have "slice_index (length (frame p)) 6 = 6"
    by (simp add: slice_index_def)
  moreover have "slice_index (length (frame p)) (6 + int (length p)) = 6 + length p"
    by (simp add: slice_index_def nat_add_distrib)
  moreover have "drop 6 (frame p) = p"
    by (simp add: frame_def)
  ultimately show ?thesis
    by (simp add: slice_def Let_def del: length_frame)
qed

lemma readUInt16LE_u16_at: "off + 2 \<le> length d \<Longrightarrow> readUInt16LE d off = Inr (u16_at d off)"
  by (simp add: readUInt16LE_def u16_at_def)

lemma header_frame_reads:
  assumes "length p \<le> 65535"
  shows "toString_ascii (take 2 ([0x55, 0x43, 0x01, 0x00] @ u16le (length p))) = ''UC''"
    and "readUInt16LE ([0x55, 0x43, 0x01, 0x00] @ u16le (length p)) 2 = Inr 1"
    and "readUInt16LE ([0x55, 0x43, 0x01, 0x00] @ u16le (length p)) 4 = Inr (length p)"
proof -
  show "toString_ascii (take 2 ([0x55, 0x43, 0x01, 0x00] @ u16le (length p))) = ''UC''"
    by (simp add: toString_ascii_def char_of_def bit_Suc_0_iff)
  show "readUInt16LE ([0x55, 0x43, 0x01, 0x00] @ u16le (length p)) 2 = Inr 1"
    by (simp add: readUInt16LE_def)
  from u16_roundtrip [OF assms]
  show "readUInt16LE ([0x55, 0x43, 0x01, 0x00] @ u16le (length p)) 4 = Inr (length p)"
    by (simp add: readUInt16LE_def u16le_def)
qed

lemma parsePacket_frame:
  assumes "6 \<le> length p" and "length p \<le> 65535"
  shows "parsePacket (frame p) =
    Inr \<lparr>type = toString_ascii (take 2 p),
         addressPair = \<lparr>a = u16_at p 2, b = u16_at p 4\<rparr>,
         data = drop 6 p\<rparr>"
proof -
  from assms(1) have r: "readUInt16LE p 2 = Inr (u16_at p 2)" "readUInt16LE p 4 = Inr (u16_at p 4)"
    by (simp_all add: readUInt16LE_u16_at)
  have h: "\<not> (toString_ascii (take 2 (slice (frame p) 0 6)) \<noteq> ''UC''
             \<or> readUInt16LE (slice (frame p) 0 6) 2 \<noteq> Inr 1)"
    unfolding slice_header_frame using header_frame_reads(1,2) [OF assms(2)] by simp
  have s: "readUInt16LE (slice (frame p) 0 6) 4 = Inr (length p)"
    unfolding slice_header_frame by (rule header_frame_reads(3) [OF assms(2)])
  show ?thesis
    unfolding parsePacket_def Let_def
    by (simp only: h s r slice_payload_frame length_frame if_False sum.case)
       (simp add: slice_to_end [of p 6, simplified])
qed

lemma parsePacket_frame_short:
  assumes "length p < 6"
  shows "parsePacket (frame p) = Inl RangeError"
proof -
  from assms have le: "length p \<le> 65535" by simp
  have h: "\<not> (toString_ascii (take 2 (slice (frame p) 0 6)) \<noteq> ''UC''
             \<or> readUInt16LE (slice (frame p) 0 6) 2 \<noteq> Inr 1)"
    unfolding slice_header_frame using header_frame_reads(1,2) [OF le] by simp
  have s: "readUInt16LE (slice (frame p) 0 6) 4 = Inr (length p)"
    unfolding slice_header_frame by (rule header_frame_reads(3) [OF le])
  from assms have r: "readUInt16LE p 2 = Inl RangeError \<or>
      (\<exists>x. readUInt16LE p 2 = Inr x \<and> readUInt16LE p 4 = Inl RangeError)"
    by (simp add: readUInt16LE_def)
  have "parsePacket (frame p) =
      (case readUInt16LE p 2 of Inl e \<Rightarrow> Inl e
       | Inr pa \<Rightarrow> (case readUInt16LE p 4 of Inl e \<Rightarrow> Inl e
           | Inr pb \<Rightarrow> Inr \<lparr>type = toString_ascii (take 2 p), addressPair = \<lparr>a = pa, b = pb\<rparr>,
                             data = slice p 6 (int (length p))\<rparr>))"
    unfolding parsePacket_def Let_def
    by (simp only: h s slice_payload_frame length_frame if_False sum.case) simp
  with r show ?thesis by auto
qed


lemma process_short: "length (receiveBuffer st) < 6 \<Longrightarrow> process ext st = st"
  by (simp add: process.simps [of ext st])

lemma process_Break:
  "6 \<le> length (receiveBuffer st) \<Longrightarrow> loop_body ext st = Break st' \<Longrightarrow> process ext st = st'"
  by (simp add: process.simps [of ext st])

lemma process_Continue:
  "6 \<le> length (receiveBuffer st) \<Longrightarrow> loop_body ext st = Continue st'
     \<Longrightarrow> process ext st = process ext st'"
  by (simp add: process.simps [of ext st])

lemma indexOf_UC_start: "take 2 buf = [0x55, 0x43] \<Longrightarrow> indexOf_UC buf = Some 0"
  by (cases buf; cases "tl buf") auto

lemma loop_body_wrong_version:
  assumes "6 \<le> length (receiveBuffer st)" and "take 2 (receiveBuffer st) = [0x55, 0x43]"
    and "u16_at (receiveBuffer st) 2 \<noteq> 1"
  shows "loop_body ext st =
     Continue ((logmsg Warn ''Invalid version in header, discarding and searching for next header'' st)
                 \<lparr>receiveBuffer := drop 2 (receiveBuffer st)\<rparr>)"
  using assms by (simp add: loop_body_def indexOf_UC_start Let_def)

text \<open>No frame starts at the second byte of a buffer that starts with the magic: that byte is \<open>C\<close>.\<close>

lemma no_frame_at_second_byte:
  "take 2 buf = [0x55, 0x43] \<Longrightarrow> drop 1 buf \<noteq> frame p @ rest"
  by (cases buf; cases "tl buf") (auto simp: frame_def)

lemma handlePVPacket_data:
  "data pkt = data pkt' \<Longrightarrow> handlePVPacket st pkt = handlePVPacket st pkt'"
  by (simp add: handlePVPacket_def)

lemma dispatch_PV_frame:
  assumes "length ad = 4" and "length body \<le> 65529"
  shows "dispatch ext st (frame (Buffer_from ''PV'' @ ad @ body)) =
     handlePVPacket st \<lparr>type = ''PV'', addressPair = \<lparr>a = 0x68, b = 0x66\<rparr>, data = body\<rparr>"
proof -
  let ?p = "Buffer_from ''PV'' @ ad @ body"
  from assms have "6 \<le> length ?p" "length ?p \<le> 65535" by simp_all
  from parsePacket_frame [OF this] assms(1)
  have "parsePacket (frame ?p) =
      Inr \<lparr>type = toString_ascii (Buffer_from ''PV''),
           addressPair = \<lparr>a = u16_at ?p 2, b = u16_at ?p 4\<rparr>, data = body\<rparr>"
    by simp
  moreover have "toString_ascii (Buffer_from ''PV'') = ''PV''"
    by (simp add: toString_ascii_def Buffer_from_def char_of_def bit_Suc_0_iff)
  ultimately have "dispatch ext st (frame ?p) =
      handlePVPacket st \<lparr>type = ''PV'', addressPair = \<lparr>a = u16_at ?p 2, b = u16_at ?p 4\<rparr>, data = body\<rparr>"
    by (simp add: dispatch_def)
  also have "\<dots> = handlePVPacket st \<lparr>type = ''PV'', addressPair = \<lparr>a = 0x68, b = 0x66\<rparr>, data = body\<rparr>"
    by (rule handlePVPacket_data) simp
  finally show ?thesis .
qed

lemma handlePVPacket_short: "length (data pkt) < 4 \<Longrightarrow> handlePVPacket st pkt = Inl RangeError"
  by (simp add: handlePVPacket_def decodePV_short)

lemma process_PV_frame_last:
  assumes "receiveBuffer st = frame (Buffer_from ''PV'' @ ad @ body)"
    and "length ad = 4" and "length body \<le> 65529"
    and "handlePVPacket (st\<lparr>receiveBuffer := []\<rparr>)
           \<lparr>type = ''PV'', addressPair = \<lparr>a = 0x68, b = 0x66\<rparr>, data = body\<rparr> = Inr st'"
  shows "process ext st = st'"
proof -
  from assms(2,3) have len: "length (Buffer_from ''PV'' @ ad @ body) \<le> 65535" by simp
  from assms(1) have buf: "receiveBuffer st = frame (Buffer_from ''PV'' @ ad @ body) @ []" by simp
  from loop_body_frame [OF buf len, of ext] dispatch_PV_frame [OF assms(2,3), of ext] assms(4)
  have "loop_body ext st = Continue st'" by simp
  moreover from assms(1) have "6 \<le> length (receiveBuffer st)" by simp
  ultimately have "process ext st = process ext st'" by (rule process_Continue [rotated])
  moreover from receiveBuffer_handlePVPacket [OF assms(4)] have "length (receiveBuffer st') < 6" by simp
  ultimately show ?thesis by (simp add: process_short)
qed

lemma bypass_on_frame:
  "[0x55, 0x43, 0x01, 0x00, 0x1F, 0x00, 0x50, 0x56, 0x68, 0x00, 0x66, 0x00,
    0x67, 0x6C, 0x6F, 0x62, 0x61, 0x6C, 0x2F, 0x6D, 0x69, 0x78, 0x65, 0x72,
    0x42, 0x79, 0x70, 0x61, 0x73, 0x73, 0x00, 0x00, 0x00, 0x00, 0x00, 0x80, 0x3F]
   = frame (Buffer_from ''PV'' @ [0x68, 0x00, 0x66, 0x00]
            @ (Buffer_from ''global/mixerBypass'' @ [0x00, 0x00, 0x00] @ writeFloatLE f32_one))"
  by (simp add: frame_def Buffer_from_def u16le_def writeFloatLE_def f32_one_def)

lemma empty_pv_frame:
  "[0x55, 0x43, 0x01, 0x00, 0x06, 0x00, 0x50, 0x56, 0x68, 0x00, 0x66, 0x00]
   = frame (Buffer_from ''PV'' @ [0x68, 0x00, 0x66, 0x00] @ [])"
  by (simp add: frame_def Buffer_from_def u16le_def)

section \<open>Chunk boundaries\<close>

subsection \<open>The handlers read the state store only\<close>

lemma store_logmsg [simp]: "store (logmsg l m st) = store st"
  by (simp add: store_def)

lemma store_receiveBuffer [simp]: "store (st\<lparr>receiveBuffer := buf\<rparr>) = store st"
  by (simp add: store_def)

lemma store_handlePVPacket:
  assumes "store st = store st'"
  shows "rel_sum (=) (\<lambda>s s'. store s = store s') (handlePVPacket st pkt) (handlePVPacket st' pkt)"
  using assms
  by (auto simp: handlePVPacket_def store_def Let_def split: sum.splits prod.splits option.splits)

lemma store_channel_entry:
  assumes "store st = store st'"
  shows "rel_sum (=) (\<lambda>s s'. store s = store s') (channel_entry g st e) (channel_entry g st' e)"
  using assms
  by (auto simp: channel_entry_def store_def Let_def split: option.splits)

lemma store_channel_entries:
  assumes "store st = store st'"
  shows "store (fst (channel_entries g es st)) = store (fst (channel_entries g es st'))
         \<and> snd (channel_entries g es st) = snd (channel_entries g es st')"
  using assms
proof (induction es arbitrary: st st')
  case Nil
  then show ?case by simp
next
  case (Cons e es)
  from store_channel_entry [OF Cons.prems, of g e]
  show ?case
  proof (cases "channel_entry g st e"; cases "channel_entry g st' e")
    fix s s' assume "channel_entry g st e = Inr s" "channel_entry g st' e = Inr s'"
    with store_channel_entry [OF Cons.prems, of g e] Cons.IH [of s s']
    show ?thesis by simp
  qed (use Cons.prems in auto)
qed

lemma store_updateChannelStates:
  assumes "store st = store st'"
  shows "store (fst (updateChannelStates g st j)) = store (fst (updateChannelStates g st' j))
         \<and> snd (updateChannelStates g st j) = snd (updateChannelStates g st' j)"
  using store_channel_entries [OF assms] assms
  by (simp add: updateChannelStates_def split: option.splits)

lemma store_updateGlobalStates:
  assumes "store st = store st'"
  shows "store (updateGlobalStates g st j) = store (updateGlobalStates g st' j)"
  using assms
  by (auto simp: updateGlobalStates_def store_def Let_def split: option.splits jsvalue.splits)

lemma handleZMPacket_cases:
  "handleZMPacket ext st pkt =
     (if length (data pkt) < 4 then Inl RangeError
      else case inflateRawSync ext (drop 6 (data pkt)) of
             None \<Rightarrow> Inr (logmsg Error ''Error decompressing ZM packet data'' st)
           | Some d \<Rightarrow>
               (case JSON_parse ext d of
                  None \<Rightarrow> Inr (logmsg Error ''Error decompressing ZM packet data'' st)
                | Some j \<Rightarrow>
                    Inr (if snd (updateChannelStates (greater_than_0 (gt0 ext)) st j) = None
                         then updateGlobalStates (greater_than_0 (gt0 ext)) (fst (updateChannelStates (greater_than_0 (gt0 ext)) st j)) j
                         else logmsg Error ''Error decompressing ZM packet data''
                                (fst (updateChannelStates (greater_than_0 (gt0 ext)) st j)))))"
proof (cases "length (data pkt) < 4")
  case True
  then show ?thesis by (simp add: handleZMPacket_def)
next
  case False
  show ?thesis
  proof (cases "inflateRawSync ext (drop 6 (data pkt))")
    case None
    with False show ?thesis by (simp add: handleZMPacket_def Let_def compressedData_drop)
  next
    case (Some d)
    show ?thesis
    proof (cases "JSON_parse ext d")
      case None
      with False Some show ?thesis by (simp add: handleZMPacket_def Let_def compressedData_drop)
    next
      case j: (Some j)
      obtain s1 r where u: "updateChannelStates (greater_than_0 (gt0 ext)) st j = (s1, r)"
        by (cases "updateChannelStates (greater_than_0 (gt0 ext)) st j")
      with False Some j show ?thesis
        by (cases r) (simp_all add: handleZMPacket_def Let_def compressedData_drop)
    qed
  qed
qed



lemma store_handleZMPacket:
  assumes "store st = store st'"
  shows "rel_sum (=) (\<lambda>s s'. store s = store s') (handleZMPacket ext st pkt) (handleZMPacket ext st' pkt)"
proof -
  have "store (fst (updateChannelStates (greater_than_0 (gt0 ext)) st j)) = store (fst (updateChannelStates (greater_than_0 (gt0 ext)) st' j))"
    and "snd (updateChannelStates (greater_than_0 (gt0 ext)) st j) = snd (updateChannelStates (greater_than_0 (gt0 ext)) st' j)" for j
    using store_updateChannelStates [OF assms, of "greater_than_0 (gt0 ext)" j] by simp_all
  note u = this
  show ?thesis
  proof (cases "length (data pkt) < 4")
    case True
    then show ?thesis by (simp add: handleZMPacket_cases)
  next
    case False
    show ?thesis
    proof (cases "inflateRawSync ext (drop 6 (data pkt))")
      case None
      with False assms show ?thesis by (simp add: handleZMPacket_cases)
    next
      case (Some d)
      show ?thesis
      proof (cases "JSON_parse ext d")
        case None
        with False Some assms show ?thesis by (simp add: handleZMPacket_cases)
      next
        case j: (Some j)
        from u(1) [of j] have g: "store (updateGlobalStates (greater_than_0 (gt0 ext)) (fst (updateChannelStates (greater_than_0 (gt0 ext)) st j)) j)
            = store (updateGlobalStates (greater_than_0 (gt0 ext)) (fst (updateChannelStates (greater_than_0 (gt0 ext)) st' j)) j)"
          by (rule store_updateGlobalStates)
        from False Some j g u(1) [of j] u(2) [of j] show ?thesis
          by (simp add: handleZMPacket_cases)
      qed
    qed
  qed
qed

lemma store_dispatch:
  assumes "store st = store st'"
  shows "rel_sum (=) (\<lambda>s s'. store s = store s') (dispatch ext st f) (dispatch ext st' f)"
  using store_handlePVPacket [OF assms] store_handleZMPacket [OF assms] assms
  by (auto simp: dispatch_def split: sum.splits)

subsection \<open>Frames of quiet payloads\<close>

lemma handlePVPacket_returns:
  assumes "4 \<le> length (data pkt)"
  shows "\<exists>st'. handlePVPacket st pkt = Inr st'"
proof -
  from assms have "\<exists>v. readFloatLE (data pkt) (int (length (data pkt)) - 4) = Inr v"
    by (simp add: readFloatLE_def)
  then show ?thesis
    by (auto simp: handlePVPacket_def decodePV_def Let_def split: option.splits)
qed

lemma dispatch_quiet:
  assumes "quiet p"
  shows "dispatch ext st (frame p) = Inr (deliver ext st p)"
proof -
  from assms have l: "6 \<le> length p" "length p \<le> 65535" by (simp_all add: quiet_def)
  let ?pkt = "\<lparr>type = toString_ascii (take 2 p),
         addressPair = \<lparr>a = u16_at p 2, b = u16_at p 4\<rparr>, data = drop 6 p\<rparr>"
  have pp: "parsePacket (frame p) = Inr ?pkt" by (rule parsePacket_frame [OF l])
  have "\<exists>st'. dispatch ext st (frame p) = Inr st'"
  proof (cases "toString_ascii (take 2 p) = ''ZM''")
    case True
    with assms have "10 \<le> length p" by (simp add: quiet_def)
    then have "4 \<le> length (data ?pkt)" by simp
    from handleZMPacket_returns [OF this, of ext st] True pp show ?thesis
      by (simp add: dispatch_def)
  next
    case False
    show ?thesis
    proof (cases "toString_ascii (take 2 p) = ''PV''")
      case True
      with assms have "10 \<le> length p" by (simp add: quiet_def)
      then have "4 \<le> length (data ?pkt)" by simp
      from handlePVPacket_returns [OF this, of st] True False pp show ?thesis
        by (simp add: dispatch_def)
    next
      case F: False
      with False pp show ?thesis by (simp add: dispatch_def)
    qed
  qed
  then show ?thesis by (auto simp: deliver_def)
qed

lemma store_deliver:
  assumes "store st = store st'"
  shows "store (deliver ext st p) = store (deliver ext st' p)"
  using store_dispatch [OF assms, of ext "frame p"] assms
  by (cases "dispatch ext st (frame p)"; cases "dispatch ext st' (frame p)")
     (simp_all add: deliver_def)

lemma store_deliver_all:
  assumes "store st = store st'"
  shows "store (foldl (deliver ext) st ps) = store (foldl (deliver ext) st' ps)"
  using assms
proof (induction ps arbitrary: st st')
  case Nil
  then show ?case by simp
next
  case (Cons p ps)
  from store_deliver [OF Cons.prems, of ext p]
  have "store (foldl (deliver ext) (deliver ext st p) ps) = store (foldl (deliver ext) (deliver ext st' p) ps)"
    by (rule Cons.IH)
  then show ?case by simp
qed

lemma quiet_PV:
  assumes "length ad = 4" and "4 \<le> length body" and "length body \<le> 65529"
  shows "quiet (Buffer_from ''PV'' @ ad @ body)"
  using assms by (simp add: quiet_def)

lemma u16_at_append: "off + 2 \<le> length xs \<Longrightarrow> u16_at (xs @ ys) off = u16_at xs off"
  by (simp add: u16_at_def nth_append)

lemma process_waiting:
  assumes "waiting (receiveBuffer st) ps" and "\<forall>p\<in>set ps. quiet p"
  shows "process ext st = st"
proof (cases "length (receiveBuffer st) < 6")
  case True
  then show ?thesis by (rule process_short)
next
  case False
  then have six: "6 \<le> length (receiveBuffer st)" by simp
  with assms(1) obtain p r sfx where ps: "ps = p # r" and sfx: "sfx \<noteq> []"
    and fr: "receiveBuffer st @ sfx = frame p"
    by (auto simp: waiting_def)
  from ps assms(2) have lp: "length p \<le> 65535" by (simp add: quiet_def)
  have "take 2 (receiveBuffer st) = take 2 (receiveBuffer st @ sfx)"
    using six by simp
  also have "\<dots> = [0x55, 0x43]"
    unfolding fr by (simp add: frame_def)
  finally have idx: "indexOf_UC (receiveBuffer st) = Some 0"
    by (rule indexOf_UC_start)
  have "u16_at (receiveBuffer st) 2 = u16_at (receiveBuffer st @ sfx) 2"
    using six by (simp add: u16_at_append)
  also have "\<dots> = 1"
    unfolding fr using version_frame [of p "[]"] by simp
  finally have ver: "u16_at (receiveBuffer st) 2 = 1" .
  have "u16_at (receiveBuffer st) 4 = u16_at (receiveBuffer st @ sfx) 4"
    using six by (simp add: u16_at_append)
  also have "\<dots> = length p"
    unfolding fr using size_frame [OF lp, of "[]"] by simp
  finally have sz: "u16_at (receiveBuffer st) 4 = length p" .
  from fr sfx have "length (receiveBuffer st) < 6 + length p"
    using length_frame [of p] length_append [of "receiveBuffer st" sfx]
    by (simp del: length_frame length_append)
  with six idx ver sz have "loop_body ext st = Break st"
    by (simp add: loop_body_def Let_def)
  with six show ?thesis by (rule process_Break)
qed

lemma process_frames:
  assumes "\<forall>p\<in>set qs. quiet p" and "\<forall>p\<in>set ps. quiet p" and "waiting pa ps"
    and "receiveBuffer st = concat (map frame qs) @ pa"
  shows "receiveBuffer (process ext st) = pa
         \<and> store (process ext st) = store (foldl (deliver ext) st qs)"
  using assms(1,4)
proof (induction qs arbitrary: st)
  case Nil
  then have "waiting (receiveBuffer st) ps" using assms(3) by simp
  from process_waiting [OF this assms(2), of ext] Nil show ?case by simp
next
  case (Cons q qs)
  let ?rest = "concat (map frame qs) @ pa"
  let ?st2 = "st\<lparr>receiveBuffer := ?rest\<rparr>"
  from Cons.prems have q: "quiet q" and buf: "receiveBuffer st = frame q @ ?rest"
    by simp_all
  from q have lq: "length q \<le> 65535" by (simp add: quiet_def)
  from loop_body_frame [OF buf lq, of ext] dispatch_quiet [OF q, of ext ?st2]
  have lb: "loop_body ext st = Continue (deliver ext ?st2 q)" by simp
  from buf have "6 \<le> length (receiveBuffer st)" by simp
  from process_Continue [OF this lb]
  have step: "process ext st = process ext (deliver ext ?st2 q)" .
  from receiveBuffer_dispatch [OF dispatch_quiet [OF q, of ext ?st2]]
  have b2: "receiveBuffer (deliver ext ?st2 q) = ?rest" by simp
  from Cons.prems have "\<forall>p\<in>set qs. quiet p" by simp
  from Cons.IH [OF this b2]
  have "receiveBuffer (process ext (deliver ext ?st2 q)) = pa"
    and "store (process ext (deliver ext ?st2 q)) = store (foldl (deliver ext) (deliver ext ?st2 q) qs)"
    by simp_all
  moreover have "store (deliver ext ?st2 q) = store (deliver ext st q)"
    by (rule store_deliver) simp
  then have "store (foldl (deliver ext) (deliver ext ?st2 q) qs) = store (foldl (deliver ext) (deliver ext st q) qs)"
    by (rule store_deliver_all)
  ultimately show ?case using step by simp
qed

lemma split_stream:
  assumes "X @ Y = concat (map frame ps)"
  shows "\<exists>qs ps' pa. ps = qs @ ps' \<and> X = concat (map frame qs) @ pa \<and> waiting pa ps'"
  using assms
proof (induction ps arbitrary: X)
  case Nil
  then show ?case by (simp add: waiting_def)
next
  case (Cons p ps)
  show ?case
  proof (cases "length X < length (frame p)")
    case True
    have "X = [] \<or> (\<exists>sfx. sfx \<noteq> [] \<and> X @ sfx = frame p)"
    proof -
      from Cons.prems have "X @ Y = frame p @ concat (map frame ps)" by simp
      with True obtain us where "X @ us = frame p"
        by (auto simp: append_eq_append_conv2 simp del: length_frame)
      moreover with True have "us \<noteq> []" by (auto simp del: length_frame)
      ultimately show ?thesis by blast
    qed
    then have "waiting X (p # ps)" by (auto simp: waiting_def)
    then have "p # ps = [] @ (p # ps) \<and> X = concat (map frame []) @ X \<and> waiting X (p # ps)"
      by simp
    then show ?thesis by blast
  next
    case False
    from Cons.prems have e: "X @ Y = frame p @ concat (map frame ps)" by simp
    define X' where "X' = drop (length (frame p)) X"
    from False have n: "length (frame p) \<le> length X" by simp
    from e have "take (length (frame p)) (X @ Y) = frame p" by simp
    with n have "take (length (frame p)) X = frame p" by simp
    then have X: "X = frame p @ X'"
      unfolding X'_def by (metis append_take_drop_id)
    from e have "drop (length (frame p)) (X @ Y) = concat (map frame ps)" by simp
    with n have r: "X' @ Y = concat (map frame ps)"
      unfolding X'_def by simp
    from Cons.IH [OF r] obtain qs ps' pa
      where "ps = qs @ ps'" "X' = concat (map frame qs) @ pa" "waiting pa ps'"
      by blast
    with X have "p # ps = (p # qs) @ ps' \<and> X = concat (map frame (p # qs)) @ pa \<and> waiting pa ps'"
      by simp
    then show ?thesis by blast
  qed
qed

lemma feed_chunks:
  assumes "\<forall>p\<in>set ps. quiet p" and "waiting (receiveBuffer st) ps"
    and "receiveBuffer st @ concat cs = concat (map frame ps)"
  shows "store (foldl (handleIncomingData ext) st cs) = store (foldl (deliver ext) st ps)
         \<and> receiveBuffer (foldl (handleIncomingData ext) st cs) = []"
  using assms
proof (induction cs arbitrary: st ps)
  case Nil
  have "ps = []"
  proof (rule ccontr)
    assume "ps \<noteq> []"
    then obtain p r where ps: "ps = p # r" by (cases ps) auto
    from Nil.prems(3) ps have b: "receiveBuffer st = frame p @ concat (map frame r)" by simp
    then have "receiveBuffer st \<noteq> []" by (simp add: frame_def)
    with Nil.prems(2) ps obtain sfx where "sfx \<noteq> []" "receiveBuffer st @ sfx = frame p"
      by (auto simp: waiting_def)
    with b show False by simp
  qed
  with Nil.prems(3) show ?case by simp
next
  case (Cons c cs)
  let ?st0 = "(logmsg Debug ''Received TCP data (ascii)'' (logmsg Debug ''Received TCP data (hex)'' st))
          \<lparr>receiveBuffer := receiveBuffer st @ c\<rparr>"
  let ?st1 = "handleIncomingData ext st c"
  from Cons.prems(3) have "(receiveBuffer st @ c) @ concat cs = concat (map frame ps)" by simp
  from split_stream [OF this] obtain qs ps' pa
    where ps: "ps = qs @ ps'" and X: "receiveBuffer st @ c = concat (map frame qs) @ pa"
      and w: "waiting pa ps'"
    by blast
  from Cons.prems(1) ps have qq: "\<forall>p\<in>set qs. quiet p" and qp: "\<forall>p\<in>set ps'. quiet p"
    by simp_all
  from X have b0: "receiveBuffer ?st0 = concat (map frame qs) @ pa" by simp
  from process_frames [OF qq qp w b0, of ext]
  have b1: "receiveBuffer ?st1 = pa" and s1: "store ?st1 = store (foldl (deliver ext) ?st0 qs)"
    by (simp_all add: handleIncomingData_def)
  have "store ?st0 = store st" by simp
  from store_deliver_all [OF this] s1
  have s1': "store ?st1 = store (foldl (deliver ext) st qs)" by simp
  from Cons.prems(3) ps
  have "(receiveBuffer st @ c) @ concat cs = concat (map frame qs) @ concat (map frame ps')"
    by simp
  then have "concat (map frame qs) @ (pa @ concat cs) = concat (map frame qs) @ concat (map frame ps')"
    unfolding X by simp
  then have "pa @ concat cs = concat (map frame ps')"
    by (simp only: same_append_eq)
  with b1 w have "waiting (receiveBuffer ?st1) ps'" "receiveBuffer ?st1 @ concat cs = concat (map frame ps')"
    by simp_all
  from Cons.IH [OF qp this]
  have "store (foldl (handleIncomingData ext) ?st1 cs) = store (foldl (deliver ext) ?st1 ps')"
    and "receiveBuffer (foldl (handleIncomingData ext) ?st1 cs) = []"
    by simp_all
  moreover from store_deliver_all [OF s1']
  have "store (foldl (deliver ext) ?st1 ps') = store (foldl (deliver ext) (foldl (deliver ext) st qs) ps')" .
  ultimately show ?case using ps by simp
qed

text \<open>
  Where the chunk boundaries do not matter: a stream of frames of quiet payloads, fed to
  an empty receive buffer in any chunks, leaves the same channel records and mixer bypass
  state as the stream fed in one chunk, namely those the handlers of the frames leave when
  they run in order; the receive buffer is empty at the end both times.
\<close>

lemma chunks_do_not_matter_when_quiet:
  assumes "\<forall>p\<in>set ps. quiet p" and "receiveBuffer st = []"
    and "concat cs = concat (map frame ps)"
  shows "store (foldl (handleIncomingData ext) st cs) = store (handleIncomingData ext st (concat cs))
       \<and> store (foldl (handleIncomingData ext) st cs) = store (foldl (deliver ext) st ps)
       \<and> receiveBuffer (foldl (handleIncomingData ext) st cs) = []
       \<and> receiveBuffer (handleIncomingData ext st (concat cs)) = []"
proof -
  from assms(2) have w: "waiting (receiveBuffer st) ps" by (simp add: waiting_def)
  from assms(2,3) have a: "receiveBuffer st @ concat cs = concat (map frame ps)" by simp
  from assms(2,3) have b: "receiveBuffer st @ concat [concat cs] = concat (map frame ps)" by simp
  from feed_chunks [OF assms(1) w a, of ext] feed_chunks [OF assms(1) w b, of ext]
  show ?thesis by simp
qed

subsection \<open>A magic with a wrong version\<close>

lemma indexOf_UC_noise:
  "indexOf_UC (noise @ [0x55]) = None \<Longrightarrow> indexOf_UC (noise @ 0x55 # 0x43 # zs) = Some (length noise)"
proof (induction noise)
  case Nil
  show ?case by simp
next
  case (Cons x xs)
  show ?case
  proof (cases xs)
    case Nil
    with Cons.prems show ?thesis by (simp split: if_splits)
  next
    case (Cons y ys)
    with Cons.prems Cons.IH show ?thesis by (simp split: if_splits)
  qed
qed

lemma loop_body_noise:
  assumes "receiveBuffer st = noise @ frame q @ rest" and "noise \<noteq> []"
    and "indexOf_UC (noise @ [0x55]) = None"
  shows "loop_body ext st =
     loop_body ext ((logmsg Warn ''Discarding bytes before UC header'' st)
                      \<lparr>receiveBuffer := frame q @ rest\<rparr>)"
proof -
  have "frame q @ rest = 0x55 # 0x43 # ([0x01, 0x00] @ u16le (length q) @ q @ rest)"
    by (simp add: frame_def)
  with indexOf_UC_noise [OF assms(3)]
  have "indexOf_UC (noise @ frame q @ rest) = Some (length noise)"
    by simp
  with assms(1,2) show ?thesis
    by (simp add: loop_body_def [of ext st]
          loop_body_def [of ext "(logmsg Warn ''Discarding bytes before UC header'' st)
                      \<lparr>receiveBuffer := frame q @ rest\<rparr>"] indexOf_UC_frame Let_def)
qed

lemma process_noise:
  assumes "receiveBuffer st = noise @ frame q @ rest" and "noise \<noteq> []"
    and "indexOf_UC (noise @ [0x55]) = None"
  shows "process ext st =
     process ext ((logmsg Warn ''Discarding bytes before UC header'' st)
                    \<lparr>receiveBuffer := frame q @ rest\<rparr>)"
  using assms(1) loop_body_noise [OF assms, of ext]
  by (simp add: process.simps [of ext st]
        process.simps [of ext "(logmsg Warn ''Discarding bytes before UC header'' st)
                    \<lparr>receiveBuffer := frame q @ rest\<rparr>"])

lemma process_noise_frames:
  assumes "receiveBuffer st = noise @ concat (map frame qs) @ pa"
    and "indexOf_UC (noise @ [0x55]) = None" and "qs \<noteq> []"
    and "\<forall>q\<in>set qs. quiet q" and "\<forall>p\<in>set ps. quiet p" and "waiting pa ps"
  shows "receiveBuffer (process ext st) = pa
       \<and> store (process ext st) = store (foldl (deliver ext) st qs)"
proof (cases "noise = []")
  case True
  with assms(1) have "receiveBuffer st = concat (map frame qs) @ pa" by simp
  from process_frames [OF assms(4,5,6) this] show ?thesis .
next
  case False
  from assms(3) obtain q qs' where qs: "qs = q # qs'" by (cases qs) auto
  let ?st' = "(logmsg Warn ''Discarding bytes before UC header'' st)
                \<lparr>receiveBuffer := frame q @ concat (map frame qs') @ pa\<rparr>"
  from assms(1) qs have "receiveBuffer st = noise @ frame q @ (concat (map frame qs') @ pa)"
    by simp
  from process_noise [OF this False assms(2), of ext]
  have step: "process ext st = process ext ?st'" .
  have "receiveBuffer ?st' = concat (map frame qs) @ pa"
    by (simp add: qs)
  from process_frames [OF assms(4,5,6) this, of ext]
  have "receiveBuffer (process ext ?st') = pa"
    and "store (process ext ?st') = store (foldl (deliver ext) ?st' qs)"
    by simp_all
  moreover have "store ?st' = store st" by simp
  then have "store (foldl (deliver ext) ?st' qs) = store (foldl (deliver ext) st qs)"
    by (rule store_deliver_all)
  ultimately show ?thesis using step by simp
qed

text \<open>
  C5. With at least six bytes buffered, the magic \<open>UC\<close> at the start and a version field
  other than 1, one iteration of the loop logs a warning, drops exactly the first two bytes
  of the buffer and continues. The frames that follow are then found and handled: when the
  rest of the buffer consists of bytes without a magic (none, or one, or more), of one or
  more frames of quiet payloads and of the beginning of a further frame, the loop hands
  every one of the frames to its handler, in order, and leaves the beginning of the further
  frame in the buffer.
\<close>

theorem wrong_version_skips_two_bytes:
  assumes "6 \<le> length (receiveBuffer st)" and "take 2 (receiveBuffer st) = [0x55, 0x43]"
    and "u16_at (receiveBuffer st) 2 \<noteq> 1"
  shows "loop_body ext st =
           Continue ((logmsg Warn ''Invalid version in header, discarding and searching for next header'' st)
                       \<lparr>receiveBuffer := drop 2 (receiveBuffer st)\<rparr>)
         \<and> (drop 2 (receiveBuffer st) = noise @ concat (map frame qs) @ pa
              \<and> indexOf_UC (noise @ [0x55]) = None \<and> qs \<noteq> []
              \<and> (\<forall>q\<in>set qs. quiet q) \<and> (\<forall>p\<in>set ps. quiet p) \<and> waiting pa ps
            \<longrightarrow> receiveBuffer (process ext st) = pa
                \<and> store (process ext st) = store (foldl (deliver ext) st qs))"
proof (intro conjI impI)
  let ?st2 = "(logmsg Warn ''Invalid version in header, discarding and searching for next header'' st)
                \<lparr>receiveBuffer := drop 2 (receiveBuffer st)\<rparr>"
  show lb: "loop_body ext st = Continue ?st2"
    using assms by (simp add: loop_body_def indexOf_UC_start Let_def)
  assume h: "drop 2 (receiveBuffer st) = noise @ concat (map frame qs) @ pa
              \<and> indexOf_UC (noise @ [0x55]) = None \<and> qs \<noteq> []
              \<and> (\<forall>q\<in>set qs. quiet q) \<and> (\<forall>p\<in>set ps. quiet p) \<and> waiting pa ps"
  from assms(1) lb have step: "process ext st = process ext ?st2"
    by (simp add: process.simps [of ext st])
  from h have "receiveBuffer ?st2 = noise @ concat (map frame qs) @ pa" by simp
  from process_noise_frames [OF this, of ps ext] h
  have "receiveBuffer (process ext ?st2) = pa"
    and "store (process ext ?st2) = store (foldl (deliver ext) ?st2 qs)"
    by simp_all
  moreover have "store ?st2 = store st" by simp
  then have "store (foldl (deliver ext) ?st2 qs) = store (foldl (deliver ext) st qs)"
    by (rule store_deliver_all)
  ultimately show "receiveBuffer (process ext st) = pa"
    and "store (process ext st) = store (foldl (deliver ext) st qs)"
    using step by simp_all
qed

text \<open>
  A stray magic and a stray \<open>U\<close>, followed by the frame of a PV message that turns the mixer
  bypass on: the frame, which starts one byte after the two bytes dropped, is decoded and
  nothing is left in the buffer.
\<close>

theorem wrong_version_skips_two_bytes_witness:
  "mixerBypassState
     (process \<lparr>inflateRawSync = (\<lambda>c. None), JSON_parse = (\<lambda>t. None), gt0 = (\<lambda>v. False)\<rparr>
        (constructor\<lparr>receiveBuffer :=
           [0x55, 0x43, 0x55,
            0x55, 0x43, 0x01, 0x00, 0x1F, 0x00, 0x50, 0x56, 0x68, 0x00, 0x66, 0x00,
            0x67, 0x6C, 0x6F, 0x62, 0x61, 0x6C, 0x2F, 0x6D, 0x69, 0x78, 0x65, 0x72,
            0x42, 0x79, 0x70, 0x61, 0x73, 0x73, 0x00, 0x00, 0x00, 0x00, 0x00, 0x80, 0x3F]\<rparr>))
   = True
   \<and> receiveBuffer
     (process \<lparr>inflateRawSync = (\<lambda>c. None), JSON_parse = (\<lambda>t. None), gt0 = (\<lambda>v. False)\<rparr>
        (constructor\<lparr>receiveBuffer :=
           [0x55, 0x43, 0x55,
            0x55, 0x43, 0x01, 0x00, 0x1F, 0x00, 0x50, 0x56, 0x68, 0x00, 0x66, 0x00,
            0x67, 0x6C, 0x6F, 0x62, 0x61, 0x6C, 0x2F, 0x6D, 0x69, 0x78, 0x65, 0x72,
            0x42, 0x79, 0x70, 0x61, 0x73, 0x73, 0x00, 0x00, 0x00, 0x00, 0x00, 0x80, 0x3F]\<rparr>))
   = []"
proof -
  let ?ext = "\<lparr>inflateRawSync = (\<lambda>c. None), JSON_parse = (\<lambda>t. None), gt0 = (\<lambda>v. False)\<rparr>"
  let ?f = "[0x55, 0x43, 0x01, 0x00, 0x1F, 0x00, 0x50, 0x56, 0x68, 0x00, 0x66, 0x00,
            0x67, 0x6C, 0x6F, 0x62, 0x61, 0x6C, 0x2F, 0x6D, 0x69, 0x78, 0x65, 0x72,
            0x42, 0x79, 0x70, 0x61, 0x73, 0x73, 0x00, 0x00, 0x00, 0x00, 0x00, 0x80, 0x3F] :: buffer"
  let ?st = "constructor\<lparr>receiveBuffer := 0x55 # 0x43 # 0x55 # ?f\<rparr>"
  let ?body = "Buffer_from ''global/mixerBypass'' @ [0x00, 0x00, 0x00] @ writeFloatLE f32_one"
  let ?p = "Buffer_from ''PV'' @ [0x68, 0x00, 0x66, 0x00] @ ?body"
  have a1: "6 \<le> length (receiveBuffer ?st)" by simp
  have a2: "take 2 (receiveBuffer ?st) = [0x55, 0x43]" by simp
  have a3: "u16_at (receiveBuffer ?st) 2 \<noteq> 1" by (simp add: u16_at_def)
  have q: "quiet ?p" by (rule quiet_PV) simp_all
  have f: "?f = frame ?p" by (rule bypass_on_frame)
  have "drop 2 (receiveBuffer ?st) = [0x55] @ ?f" by simp
  then have buf: "drop 2 (receiveBuffer ?st) = [0x55] @ concat (map frame [?p]) @ []"
    by (simp only: f) simp
  have noise: "indexOf_UC ([0x55] @ [0x55]) = None" by simp
  have w: "waiting [] []" by (simp add: waiting_def)
  from wrong_version_skips_two_bytes [OF a1 a2 a3, of ?ext "[0x55]" "[?p]" "[]" "[]"] buf noise q w
  have r: "receiveBuffer (process ?ext ?st) = []"
    and s: "store (process ?ext ?st) = store (foldl (deliver ?ext) ?st [?p])"
    by simp_all
  have "dispatch ?ext ?st (frame ?p) =
      handlePVPacket ?st \<lparr>type = ''PV'', addressPair = \<lparr>a = 0x68, b = 0x66\<rparr>, data = ?body\<rparr>"
    by (rule dispatch_PV_frame) simp_all
  also have "\<dots> = Inr (logmsg Debug ''Mixer Bypass state updated via PV packet''
            (?st\<lparr>mixerBypassState := float_gt_zero f32_one\<rparr>))"
    by (rule handlePVPacket_global) simp
  finally have "deliver ?ext ?st ?p = logmsg Debug ''Mixer Bypass state updated via PV packet''
            (?st\<lparr>mixerBypassState := float_gt_zero f32_one\<rparr>)"
    by (simp only: deliver_def sum.case)
  with s have "store (process ?ext ?st) = (channelStates ?st, True)"
    by (simp add: store_def float_gt_zero_consts)
  then have "mixerBypassState (process ?ext ?st) = True"
    by (simp add: store_def)
  with r show ?thesis by simp
qed

subsection \<open>A frame whose handler raises\<close>

lemma indexOf_UC_after_magic:
  "indexOf_UC [0x01, 0x00, 0x1F, 0x00, 0x50, 0x56, 0x68, 0x00, 0x66, 0x00,
    0x67, 0x6C, 0x6F, 0x62, 0x61, 0x6C, 0x2F, 0x6D, 0x69, 0x78, 0x65, 0x72,
    0x42, 0x79, 0x70, 0x61, 0x73, 0x73, 0x00, 0x00, 0x00, 0x00, 0x00, 0x80, 0x3F] = None"
  by simp

text \<open>
  C2. Two frames, both with magic, version 1 and a payload of the declared length: a PV
  message with an empty body, then a PV message that sets \<open>global/mixerBypass\<close> to 1.0. Fed in
  two chunks, the second message is decoded and the mixer bypass state becomes true. Fed in
  one chunk, it is lost: the handler of the first message raises on the empty body, the
  \<open>catch\<close> drops two bytes of the buffer, from which the first frame has already been removed,
  and these are the magic of the second frame.
\<close>

theorem chunking_changes_the_result:
  "mixerBypassState
     (handleIncomingData ext
        (handleIncomingData ext constructor
           [0x55, 0x43, 0x01, 0x00, 0x06, 0x00, 0x50, 0x56, 0x68, 0x00, 0x66, 0x00])
        [0x55, 0x43, 0x01, 0x00, 0x1F, 0x00, 0x50, 0x56, 0x68, 0x00, 0x66, 0x00,
         0x67, 0x6C, 0x6F, 0x62, 0x61, 0x6C, 0x2F, 0x6D, 0x69, 0x78, 0x65, 0x72,
         0x42, 0x79, 0x70, 0x61, 0x73, 0x73, 0x00, 0x00, 0x00, 0x00, 0x00, 0x80, 0x3F]) = True
   \<and> mixerBypassState
     (handleIncomingData ext constructor
        ([0x55, 0x43, 0x01, 0x00, 0x06, 0x00, 0x50, 0x56, 0x68, 0x00, 0x66, 0x00] @
         [0x55, 0x43, 0x01, 0x00, 0x1F, 0x00, 0x50, 0x56, 0x68, 0x00, 0x66, 0x00,
          0x67, 0x6C, 0x6F, 0x62, 0x61, 0x6C, 0x2F, 0x6D, 0x69, 0x78, 0x65, 0x72,
          0x42, 0x79, 0x70, 0x61, 0x73, 0x73, 0x00, 0x00, 0x00, 0x00, 0x00, 0x80, 0x3F])) = False"
proof
  let ?f1 = "[0x55, 0x43, 0x01, 0x00, 0x06, 0x00, 0x50, 0x56, 0x68, 0x00, 0x66, 0x00] :: buffer"
  let ?f2 = "[0x55, 0x43, 0x01, 0x00, 0x1F, 0x00, 0x50, 0x56, 0x68, 0x00, 0x66, 0x00,
         0x67, 0x6C, 0x6F, 0x62, 0x61, 0x6C, 0x2F, 0x6D, 0x69, 0x78, 0x65, 0x72,
         0x42, 0x79, 0x70, 0x61, 0x73, 0x73, 0x00, 0x00, 0x00, 0x00, 0x00, 0x80, 0x3F] :: buffer"
  let ?p1 = "Buffer_from ''PV'' @ [0x68, 0x00, 0x66, 0x00] @ []"
  let ?body = "Buffer_from ''global/mixerBypass'' @ [0x00, 0x00, 0x00] @ writeFloatLE f32_one"
  let ?in = "\<lambda>st d. (logmsg Debug ''Received TCP data (ascii)'' (logmsg Debug ''Received TCP data (hex)'' st))
          \<lparr>receiveBuffer := receiveBuffer st @ d\<rparr>"
  have len1: "length ?p1 \<le> 65535" by simp
  have thrown: "dispatch ext st (frame (Buffer_from ''PV'' @ [0x68, 0x00, 0x66, 0x00])) = Inl RangeError" for st
    using dispatch_PV_frame [of "[0x68, 0x00, 0x66, 0x00]" "[]" ext st]
    by (simp add: handlePVPacket_short)

  \<comment> \<open>the first frame alone, then the second\<close>
  let ?a0 = "?in constructor ?f1"
  let ?a1 = "(logmsg Error ''Error parsing TCP packet'' (?a0\<lparr>receiveBuffer := []\<rparr>))
               \<lparr>receiveBuffer := drop 2 []\<rparr>"
  have "receiveBuffer ?a0 = frame ?p1 @ []"
    using empty_pv_frame by (simp add: constructor_def)
  from loop_body_frame [OF this len1, of ext] thrown
  have "loop_body ext ?a0 = Continue ?a1"
    by simp
  then have "process ext ?a0 = process ext ?a1"
    by (intro process_Continue) (simp_all add: constructor_def)
  also have "\<dots> = ?a1"
    by (rule process_short) simp
  finally have first: "handleIncomingData ext constructor ?f1 = ?a1"
    by (simp add: handleIncomingData_def)
  let ?b0 = "?in ?a1 ?f2"
  have bufb: "receiveBuffer ?b0 = frame (Buffer_from ''PV'' @ [0x68, 0x00, 0x66, 0x00] @ ?body)"
    using bypass_on_frame by simp
  have hb: "handlePVPacket (?b0\<lparr>receiveBuffer := []\<rparr>)
      \<lparr>type = ''PV'', addressPair = \<lparr>a = 0x68, b = 0x66\<rparr>, data = ?body\<rparr>
     = Inr (logmsg Debug ''Mixer Bypass state updated via PV packet''
              (?b0\<lparr>receiveBuffer := [], mixerBypassState := float_gt_zero f32_one\<rparr>))"
    by (simp add: handlePVPacket_global)
  have "process ext ?b0 = logmsg Debug ''Mixer Bypass state updated via PV packet''
              (?b0\<lparr>receiveBuffer := [], mixerBypassState := float_gt_zero f32_one\<rparr>)"
    by (rule process_PV_frame_last [OF bufb _ _ hb]) simp_all
  then have "mixerBypassState (handleIncomingData ext ?a1 ?f2) = True"
    by (simp add: handleIncomingData_def float_gt_zero_consts)
  with first show "mixerBypassState (handleIncomingData ext (handleIncomingData ext constructor ?f1) ?f2) = True"
    by simp

  \<comment> \<open>both frames in one chunk\<close>
  let ?w0 = "?in constructor (?f1 @ ?f2)"
  let ?w1 = "(logmsg Error ''Error parsing TCP packet'' (?w0\<lparr>receiveBuffer := ?f2\<rparr>))
               \<lparr>receiveBuffer := drop 2 ?f2\<rparr>"
  let ?w2 = "(logmsg Warn ''No valid header found in TCP data, discarding buffer'' ?w1)
               \<lparr>receiveBuffer := []\<rparr>"
  have "receiveBuffer ?w0 = frame ?p1 @ ?f2"
    using empty_pv_frame by (simp add: constructor_def)
  from loop_body_frame [OF this len1, of ext] thrown
  have "loop_body ext ?w0 = Continue ?w1"
    by simp
  then have "process ext ?w0 = process ext ?w1"
    by (intro process_Continue) (simp_all add: constructor_def)
  also have "loop_body ext ?w1 = Break ?w2"
    by (simp add: loop_body_def)
  then have "process ext ?w1 = ?w2"
    by (intro process_Break) simp_all
  finally have "handleIncomingData ext constructor (?f1 @ ?f2) = ?w2"
    by (simp add: handleIncomingData_def)
  then show "mixerBypassState (handleIncomingData ext constructor (?f1 @ ?f2)) = False"
    by (simp add: constructor_def)
qed

end
